theory Spec2Isabelle
  imports Main "HOL-Library.Sublist"
begin

section \<open>Python strings\<close>

text \<open>
  A Python \<open>str\<close> is modelled as a \<open>string\<close>, one \<open>char\<close> per code point, so the
  texts of this development are the texts over the code points U+0000 .. U+00FF. The
  helpers below follow \<open>str.isspace\<close>, \<open>str.isdecimal\<close> and \<open>str.lower\<close> on
  that range.
\<close>

definition whitespace_chars :: "char list" where
  "whitespace_chars =
     [CHR 0x09, CHR 0x0A, CHR 0x0B, CHR 0x0C, CHR 0x0D, CHR 0x1C, CHR 0x1D, CHR 0x1E,
      CHR 0x1F, CHR 0x20, CHR 0x85, CHR 0xA0]"

definition isspace :: "char \<Rightarrow> bool" where
  "isspace c = (c \<in> set whitespace_chars)"

definition isdigit :: "char \<Rightarrow> bool" where
  "isdigit c = (c \<in> set ''0123456789'')"

definition upper_letters :: "char list" where
  "upper_letters = ''ABCDEFGHIJKLMNOPQRSTUVWXYZ'' @
     [CHR 0xC0, CHR 0xC1, CHR 0xC2, CHR 0xC3, CHR 0xC4, CHR 0xC5, CHR 0xC6, CHR 0xC7,
      CHR 0xC8, CHR 0xC9, CHR 0xCA, CHR 0xCB, CHR 0xCC, CHR 0xCD, CHR 0xCE, CHR 0xCF,
      CHR 0xD0, CHR 0xD1, CHR 0xD2, CHR 0xD3, CHR 0xD4, CHR 0xD5, CHR 0xD6,
      CHR 0xD8, CHR 0xD9, CHR 0xDA, CHR 0xDB, CHR 0xDC, CHR 0xDD, CHR 0xDE]"

definition lower_letters :: "char list" where
  "lower_letters = ''abcdefghijklmnopqrstuvwxyz'' @
     [CHR 0xE0, CHR 0xE1, CHR 0xE2, CHR 0xE3, CHR 0xE4, CHR 0xE5, CHR 0xE6, CHR 0xE7,
      CHR 0xE8, CHR 0xE9, CHR 0xEA, CHR 0xEB, CHR 0xEC, CHR 0xED, CHR 0xEE, CHR 0xEF,
      CHR 0xF0, CHR 0xF1, CHR 0xF2, CHR 0xF3, CHR 0xF4, CHR 0xF5, CHR 0xF6,
      CHR 0xF8, CHR 0xF9, CHR 0xFA, CHR 0xFB, CHR 0xFC, CHR 0xFD, CHR 0xFE]"

definition lower_char :: "char \<Rightarrow> char" where
  "lower_char c = (case map_of (zip upper_letters lower_letters) c of
                     Some l \<Rightarrow> l | None \<Rightarrow> c)"

text \<open>The upper-case letter that lowers to \<open>c\<close>, when there is one on the range.\<close>

definition upper_char :: "char \<Rightarrow> char" where
  "upper_char c = (case map_of (zip lower_letters upper_letters) c of
                     Some u \<Rightarrow> u | None \<Rightarrow> c)"

text \<open>\<open>s.lower()\<close>\<close>

definition lower :: "string \<Rightarrow> string" where
  "lower s = map lower_char s"

text \<open>\<open>s.strip()\<close>\<close>

definition strip :: "string \<Rightarrow> string" where
  "strip s = rev (dropWhile isspace (rev (dropWhile isspace s)))"

text \<open>\<open>s.split(sep)\<close> for a one-character separator: never the empty list.\<close>

fun split :: "char \<Rightarrow> string \<Rightarrow> string list" where
  "split sep [] = [[]]"
| "split sep (c # cs) =
     (if c = sep then [] # split sep cs
      else (case split sep cs of
              [] \<Rightarrow> [[c]]
            | l # ls \<Rightarrow> (c # l) # ls))"

text \<open>\<open>s.split(sep, 1)\<close>: at most one split, at the first separator.\<close>

definition split1 :: "char \<Rightarrow> string \<Rightarrow> string list" where
  "split1 sep s =
     (if sep \<in> set s then [takeWhile (\<lambda>c. c \<noteq> sep) s, tl (dropWhile (\<lambda>c. c \<noteq> sep) s)]
      else [s])"

text \<open>\<open>sub in s\<close>\<close>

fun str_in :: "string \<Rightarrow> string \<Rightarrow> bool" where
  "str_in sub [] = (sub = [])"
| "str_in sub (c # cs) = (prefix sub (c # cs) \<or> str_in sub cs)"

section \<open>Regular expressions\<close>

text \<open>
  The fragment of \<open>re\<close> that the patterns of the source use. An item of a character
  set is a character, a range, \<open>\d\<close> or \<open>\s\<close>.
\<close>

datatype citem = Single char | Range char char | Digit | Space

datatype re =
    Chr char
  | In "citem list"
  | Cat re re
  | Alt re re
  | Opt re
  | Star re

text \<open>Matching one character; \<open>ic\<close> is the flag \<open>re.IGNORECASE\<close>.\<close>

definition chr_eq :: "bool \<Rightarrow> char \<Rightarrow> char \<Rightarrow> bool" where
  "chr_eq ic c x = (if ic then lower_char c = lower_char x else c = x)"

definition in_range :: "char \<Rightarrow> char \<Rightarrow> char \<Rightarrow> bool" where
  "in_range a b x = ((of_char a :: nat) \<le> of_char x \<and> (of_char x :: nat) \<le> of_char b)"

fun in_item :: "bool \<Rightarrow> citem \<Rightarrow> char \<Rightarrow> bool" where
  "in_item ic (Single c) x = chr_eq ic c x"
| "in_item ic (Range a b) x =
     (in_range a b x \<or> (ic \<and> (in_range a b (lower_char x) \<or> in_range a b (upper_char x))))"
| "in_item ic Digit x = isdigit x"
| "in_item ic Space x = isspace x"

text \<open>
  The backtracking matcher: \<open>re_m ic r s\<close> lists what is left of \<open>s\<close> after each way
  of matching \<open>r\<close> at the start of \<open>s\<close>, in the order in which \<open>re\<close> tries them
  (greedy repetition, alternatives left to right). The first element is the match
  that \<open>re\<close> reports.
\<close>

function re_m :: "bool \<Rightarrow> re \<Rightarrow> string \<Rightarrow> string list" where
  "re_m ic (Chr c) s = (case s of [] \<Rightarrow> [] | x # xs \<Rightarrow> if chr_eq ic c x then [xs] else [])"
| "re_m ic (In items) s =
     (case s of [] \<Rightarrow> [] | x # xs \<Rightarrow> if \<exists>i \<in> set items. in_item ic i x then [xs] else [])"
| "re_m ic (Cat a b) s = concat (map (re_m ic b) (re_m ic a s))"
| "re_m ic (Alt a b) s = re_m ic a s @ re_m ic b s"
| "re_m ic (Opt a) s = re_m ic a s @ [s]"
| "re_m ic (Star a) s =
     concat (map (\<lambda>s'. if length s' < length s then re_m ic (Star a) s' else [])
                 (re_m ic a s)) @ [s]"
  by pat_completeness auto
termination
  by (relation "inv_image (less_than <*lex*> less_than) (\<lambda>(ic, r, s). (size r, length s))") auto

text \<open>Pattern constructors: a sequence, a literal string, \<open>r+\<close>, \<open>r{m}\<close>, \<open>r{m,n}\<close>.\<close>

fun seq :: "re list \<Rightarrow> re" where
  "seq [] = Star (In [])"
| "seq [r] = r"
| "seq (r # rs) = Cat r (seq rs)"

definition str :: "string \<Rightarrow> re" where
  "str s = seq (map Chr s)"

fun alts :: "re list \<Rightarrow> re" where
  "alts [] = In []"
| "alts [r] = r"
| "alts (r # rs) = Alt r (alts rs)"

definition Plus :: "re \<Rightarrow> re" where
  "Plus r = Cat r (Star r)"

fun upto :: "nat \<Rightarrow> re \<Rightarrow> re" where
  "upto 0 r = Star (In [])"
| "upto (Suc n) r = Opt (Cat r (upto n r))"

fun rep :: "nat \<Rightarrow> nat \<Rightarrow> re \<Rightarrow> re" where
  "rep 0 n r = upto n r"
| "rep (Suc m) n r = Cat r (rep m (n - 1) r)"

text \<open>\<open>re.match(r, s)\<close> and \<open>re.search(r, s)\<close>, as truth values.\<close>

definition re_match :: "bool \<Rightarrow> re \<Rightarrow> string \<Rightarrow> bool" where
  "re_match ic r s = (re_m ic r s \<noteq> [])"

fun re_search :: "bool \<Rightarrow> re \<Rightarrow> string \<Rightarrow> bool" where
  "re_search ic r [] = re_match ic r []"
| "re_search ic r (c # cs) = (re_match ic r (c # cs) \<or> re_search ic r cs)"

text \<open>
  A pattern that ends in its only group, \<open>pre(grp)\<close>, matched at the start of \<open>s\<close>:
  the text of group 1 and what is left of \<open>s\<close> after the match.
\<close>

definition match_group :: "bool \<Rightarrow> re \<Rightarrow> re \<Rightarrow> string \<Rightarrow> (string \<times> string) option" where
  "match_group ic pre grp s =
     (case concat (map (\<lambda>s1. map (\<lambda>s2. (take (length s1 - length s2) s1, s2)) (re_m ic grp s1))
                       (re_m ic pre s)) of
        [] \<Rightarrow> None
      | m # _ \<Rightarrow> Some m)"

text \<open>
  \<open>[m.group(1) for m in re.finditer(pre(grp), s)]\<close>: the matches from left to right,
  none overlapping an earlier one.
\<close>

function finditer :: "bool \<Rightarrow> re \<Rightarrow> re \<Rightarrow> string \<Rightarrow> string list" where
  "finditer ic pre grp s =
     (case match_group ic pre grp s of
        Some (g, rest) \<Rightarrow>
          g # (if length rest < length s then finditer ic pre grp rest
               else (case s of [] \<Rightarrow> [] | _ # cs \<Rightarrow> finditer ic pre grp cs))
      | None \<Rightarrow> (case s of [] \<Rightarrow> [] | _ # cs \<Rightarrow> finditer ic pre grp cs))"
  by pat_completeness auto
termination
  by (relation "measure (\<lambda>(ic, pre, grp, s). length s)") auto

section \<open>The entity recognizer\<close>

text \<open>
  The spaCy pipeline \<open>nlp\<close> is outside the repository: it is a parameter of the
  analysis. Of its result the source reads \<open>doc.ents\<close> (of each entity \<open>label_\<close>,
  \<open>text\<close>, \<open>start\<close>, \<open>end\<close>), \<open>len(doc)\<close> and \<open>doc[start:end].text\<close>.
\<close>

record entity =
  ent_label :: string
  ent_text :: string
  ent_start :: nat
  ent_end :: nat

record doc =
  ents :: "entity list"
  doc_len :: nat
  span_text :: "nat \<Rightarrow> nat \<Rightarrow> string"

section \<open>DocumentAnalyzer\<close>

type_synonym item = "string \<times> string"

definition tax_keywords :: "string list" where
  "tax_keywords = [''tax'', ''penalty'', ''interest'', ''assessment'', ''liability'',
                   ''payment'', ''amount due'', ''balance'', ''deficiency'', ''refund'']"

definition date_keywords :: "string list" where
  "date_keywords = [''deadline'', ''due date'', ''filing date'', ''hearing'', ''trial date'',
                    ''effective date'', ''tax year'', ''period'']"

text \<open>The loop that removes duplicates: \<open>key\<close> is what the source adds to \<open>seen\<close>.\<close>

fun dedup :: "('a \<Rightarrow> 'k) \<Rightarrow> 'k set \<Rightarrow> 'a list \<Rightarrow> 'a list" where
  "dedup key seen [] = []"
| "dedup key seen (x # xs) =
     (if key x \<in> seen then dedup key seen xs
      else x # dedup key (insert (key x) seen) xs)"

definition sp :: re where "sp = In [Space]"
definition dg :: re where "dg = In [Digit]"

subsection \<open>extract_case_info\<close>

text \<open>Each pattern is split into the part before the group and the group.\<close>

definition case_id :: re where
  "case_id = Plus (In [Range CHR ''A'' CHR ''Z'', Range CHR ''0'' CHR ''9'', Single CHR ''-''])"

definition case_no_pattern :: "re \<times> re" where
  "case_no_pattern =
     (seq [str ''Case'', Plus sp, str ''No'', Opt (Chr CHR ''.''), Star sp,
           Opt (In [Single CHR '':'', Single CHR ''.'']), Star sp], case_id)"

definition docket_no_pattern :: "re \<times> re" where
  "docket_no_pattern =
     (seq [str ''Docket'', Plus sp, str ''No'', Opt (Chr CHR ''.''), Star sp,
           Opt (In [Single CHR '':'', Single CHR ''.'']), Star sp], case_id)"

definition case_number_pattern :: "re \<times> re" where
  "case_number_pattern =
     (seq [str ''Case'', Plus sp, str ''Number'', Star sp,
           Opt (In [Single CHR '':'', Single CHR ''.'']), Star sp], case_id)"

definition case_patterns :: "(re \<times> re) list" where
  "case_patterns = [case_no_pattern, docket_no_pattern, case_number_pattern]"

definition case_number_scan :: "string \<Rightarrow> item list" where
  "case_number_scan text =
     concat (map (\<lambda>(pre, grp). map (\<lambda>g. (''Case Number'', g)) (finditer True pre grp text))
                 case_patterns)"

definition party_content :: "string \<Rightarrow> string" where
  "party_content line =
     (if CHR '':'' \<in> set line then strip (last (split1 CHR '':'' (strip line)))
      else strip line)"

definition party_line :: "string \<Rightarrow> item list" where
  "party_line line =
     (let line_lower = lower line; n = length (strip line) in
      if str_in ''plaintiff'' line_lower \<and> n < 100 \<and> n > 5
        then [(''Plaintiff'', party_content line)]
      else if str_in ''defendant'' line_lower \<and> n < 100 \<and> n > 5
        then [(''Defendant'', party_content line)]
      else if str_in ''petitioner'' line_lower \<and> n < 100 \<and> n > 5
        then [(''Petitioner'', party_content line)]
      else if str_in ''respondent'' line_lower \<and> n < 100 \<and> n > 5
        then [(''Respondent'', party_content line)]
      else [])"

definition party_scan :: "string list \<Rightarrow> item list" where
  "party_scan lines = concat (map party_line (take 50 lines))"

definition court_ent :: "entity \<Rightarrow> item list" where
  "court_ent ent =
     (if ent_label ent = ''ORG'' \<and>
         (\<exists>word \<in> set [''court'', ''tribunal'']. str_in word (lower (ent_text ent)))
      then [(''Court'', ent_text ent)] else [])"

definition court_scan :: "doc \<Rightarrow> item list" where
  "court_scan d = concat (map court_ent (ents d))"

text \<open>The list \<open>results\<close> when the three loops are done.\<close>

definition case_info_results :: "string \<Rightarrow> doc \<Rightarrow> item list" where
  "case_info_results text d =
     case_number_scan text @ party_scan (split CHR 0x0A text) @ court_scan d"

definition extract_case_info :: "string \<Rightarrow> doc \<Rightarrow> item list" where
  "extract_case_info text d = take 15 (dedup (\<lambda>(heading, content). (heading, content)) {}
                                         (case_info_results text d))"

subsection \<open>extract_tax_amounts\<close>

definition money_patterns :: "re list" where
  "money_patterns =
     [seq [Chr CHR ''$'', Star sp, Plus (In [Digit, Single CHR '','']), Opt (Chr CHR ''.''),
           Star dg],
      seq [str ''USD'', Star sp, Plus (In [Digit, Single CHR '','']), Opt (Chr CHR ''.''),
           Star dg],
      seq [Plus (In [Digit, Single CHR '','']), Opt (Chr CHR ''.''), Star dg, Star sp,
           str ''dollar'', Opt (Chr CHR ''s'')]]"

definition tax_heading :: "string \<Rightarrow> string" where
  "tax_heading line_lower =
     (if str_in ''penalty'' line_lower \<or> str_in ''penalties'' line_lower then ''Penalty''
      else if str_in ''interest'' line_lower then ''Interest''
      else if str_in ''unpaid'' line_lower \<or> str_in ''owed'' line_lower \<or>
              str_in ''due'' line_lower then ''Amount Due''
      else if str_in ''refund'' line_lower then ''Refund''
      else if str_in ''assessment'' line_lower then ''Assessment''
      else if str_in ''payment'' line_lower then ''Payment''
      else if str_in ''liability'' line_lower then ''Liability''
      else if str_in ''deficiency'' line_lower then ''Deficiency''
      else ''Amount'')"

definition tax_line :: "string \<Rightarrow> item list" where
  "tax_line line =
     (let line_lower = lower line; line_stripped = strip line in
      if length line_stripped < 10 \<or> length line_stripped > 200 then []
      else if (\<exists>kw \<in> set tax_keywords. str_in kw line_lower) \<and>
              (\<exists>pattern \<in> set money_patterns. re_search True pattern line)
        then [(tax_heading line_lower, line_stripped)]
      else [])"

definition tax_line_scan :: "string list \<Rightarrow> item list" where
  "tax_line_scan lines = concat (map tax_line lines)"

definition money_ent :: "doc \<Rightarrow> entity \<Rightarrow> item list" where
  "money_ent d ent =
     (if ent_label ent = ''MONEY'' then
        (let start = nat (max 0 (int (ent_start ent) - 10));
             end = min (doc_len d) (ent_end ent + 10);
             context = strip (span_text d start end);
             context_lower = lower context in
         if (\<exists>kw \<in> set tax_keywords. str_in kw context_lower) \<and> length context < 200
         then [(if str_in ''penalty'' context_lower then ''Penalty''
                else if str_in ''interest'' context_lower then ''Interest''
                else if str_in ''due'' context_lower \<or> str_in ''owed'' context_lower
                  then ''Amount Due''
                else ''Amount'', context)]
         else [])
      else [])"

definition money_scan :: "doc \<Rightarrow> item list" where
  "money_scan d = concat (map (money_ent d) (ents d))"

definition tax_amounts_results :: "string \<Rightarrow> doc \<Rightarrow> item list" where
  "tax_amounts_results text d = tax_line_scan (split CHR 0x0A text) @ money_scan d"

definition extract_tax_amounts :: "string \<Rightarrow> doc \<Rightarrow> item list" where
  "extract_tax_amounts text d = take 20 (dedup snd {} (tax_amounts_results text d))"

subsection \<open>extract_dates\<close>

definition months :: re where
  "months = alts (map str [''January'', ''February'', ''March'', ''April'', ''May'', ''June'',
                           ''July'', ''August'', ''September'', ''October'', ''November'',
                           ''December''])"

definition date_patterns :: "re list" where
  "date_patterns =
     [seq [rep 1 2 dg, Chr CHR ''/'', rep 1 2 dg, Chr CHR ''/'', rep 2 4 dg],
      seq [rep 1 2 dg, Chr CHR ''-'', rep 1 2 dg, Chr CHR ''-'', rep 2 4 dg],
      seq [months, Plus sp, rep 1 2 dg, Opt (Chr CHR '',''), Plus sp, rep 4 4 dg],
      seq [rep 1 2 dg, Plus sp, months, Plus sp, rep 4 4 dg]]"

definition date_heading :: "string \<Rightarrow> string" where
  "date_heading line_lower =
     (if str_in ''deadline'' line_lower then ''Deadline''
      else if str_in ''due date'' line_lower \<or> str_in ''filing date'' line_lower
        then ''Filing Date''
      else if str_in ''hearing'' line_lower then ''Hearing Date''
      else if str_in ''trial'' line_lower then ''Trial Date''
      else if str_in ''effective'' line_lower then ''Effective Date''
      else if str_in ''tax year'' line_lower \<or> str_in ''taxable year'' line_lower
        then ''Tax Year''
      else ''Date'')"

definition date_line :: "string \<Rightarrow> item list" where
  "date_line line =
     (let line_lower = lower line; line_stripped = strip line in
      if length line_stripped < 10 \<or> length line_stripped > 200 then []
      else if (\<exists>kw \<in> set date_keywords. str_in kw line_lower) \<and>
              (\<exists>pattern \<in> set date_patterns. re_search True pattern line)
        then [(date_heading line_lower, line_stripped)]
      else [])"

definition date_line_scan :: "string list \<Rightarrow> item list" where
  "date_line_scan lines = concat (map date_line lines)"

definition date_ent :: "doc \<Rightarrow> entity \<Rightarrow> item list" where
  "date_ent d ent =
     (if ent_label ent = ''DATE'' then
        (let start = nat (max 0 (int (ent_start ent) - 8));
             end = min (doc_len d) (ent_end ent + 8);
             context = strip (span_text d start end);
             context_lower = lower context in
         if (\<exists>kw \<in> set date_keywords. str_in kw context_lower) \<and> length context < 200
         then [(if str_in ''deadline'' context_lower then ''Deadline''
                else if str_in ''filing'' context_lower then ''Filing Date''
                else ''Date'', context)]
         else [])
      else [])"

definition date_scan :: "doc \<Rightarrow> item list" where
  "date_scan d = concat (map (date_ent d) (ents d))"

definition dates_results :: "string \<Rightarrow> doc \<Rightarrow> item list" where
  "dates_results text d = date_line_scan (split CHR 0x0A text) @ date_scan d"

definition extract_dates :: "string \<Rightarrow> doc \<Rightarrow> item list" where
  "extract_dates text d = take 20 (dedup snd {} (dates_results text d))"

subsection \<open>extract_legal_references\<close>

text \<open>
  The section sign of the patterns is stored in the source file as the two characters
  U+00AC U+00DF, and these two characters are what the patterns hold: in the second and
  third pattern the \<open>?\<close> applies to U+00DF alone.
\<close>

definition sect :: re where
  "sect = Cat (Chr (CHR 0xAC)) (Chr (CHR 0xDF))"

definition paren_id :: re where
  "paren_id = seq [Chr CHR ''('',
                   Plus (In [Range CHR ''a'' CHR ''z'', Range CHR ''0'' CHR ''9'']),
                   Chr CHR '')'']"

definition legal_patterns :: "(re \<times> string) list" where
  "legal_patterns =
     [(seq [alts [str ''Section'', str ''Sec.'', sect], Star sp, Plus dg,
            Star (Cat (Chr CHR ''.'') (Plus dg)), Opt paren_id], ''Section''),
      (seq [Plus dg, Plus sp, Chr CHR ''U'', Opt (Chr CHR ''.''), Chr CHR ''S'',
            Opt (Chr CHR ''.''), Chr CHR ''C'', Opt (Chr CHR ''.''), Star sp,
            Chr (CHR 0xAC), Opt (Chr (CHR 0xDF)), Star sp, Plus dg], ''USC Reference''),
      (seq [str ''IRC'', Star sp, Chr (CHR 0xAC), Opt (Chr (CHR 0xDF)), Star sp, Plus dg,
            Opt paren_id], ''IRC Section''),
      (seq [Plus dg, Plus sp, str ''CFR'', Plus sp, Plus dg,
            Star (Cat (Chr CHR ''.'') (Plus dg))], ''CFR Reference''),
      (seq [str ''Title'', Plus sp, Plus dg,
            Opt (seq [Chr CHR '','', Star sp, alts [str ''Section'', sect], Star sp, Plus dg])],
       ''Title Reference''),
      (seq [alts [str ''Pub.'', str ''Public''], Star sp, str ''L.'', Star sp,
            Opt (Cat (str ''No.'') (Star sp)), Plus dg, Chr CHR ''-'', Plus dg],
       ''Public Law'')]"

text \<open>The inner loop with its \<open>break\<close>: the first pattern that is found decides.\<close>

fun first_legal :: "(re \<times> string) list \<Rightarrow> string \<Rightarrow> string \<Rightarrow> item list" where
  "first_legal [] line line_stripped = []"
| "first_legal ((pattern, heading) # ps) line line_stripped =
     (if re_search True pattern line then [(heading, line_stripped)]
      else first_legal ps line line_stripped)"

definition legal_line :: "string \<Rightarrow> item list" where
  "legal_line line =
     (let line_stripped = strip line in
      if length line_stripped < 10 \<or> length line_stripped > 200 then []
      else first_legal legal_patterns line line_stripped)"

definition legal_results :: "string \<Rightarrow> item list" where
  "legal_results text = concat (map legal_line (split CHR 0x0A text))"

definition extract_legal_references :: "string \<Rightarrow> item list" where
  "extract_legal_references text = take 25 (dedup snd {} (legal_results text))"

subsection \<open>extract_other_details\<close>

text \<open>
  \<open>re.match\<close> tries the pattern at the start of the line only, which is all that its
  leading \<open>^\<close> asks for. The bullet of the third alternative is stored in the source
  file as the three characters U+201A U+00C4 U+00A2; the first of them is no character
  of the modelled texts, and the empty set stands for it.
\<close>

definition key_point_pattern :: re where
  "key_point_pattern =
     alts [Cat (Plus dg) (Chr CHR ''.''),
           Cat (In [Range CHR ''A'' CHR ''Z'']) (Chr CHR ''.''),
           seq [In [], Chr (CHR 0xC4), Chr (CHR 0xA2)],
           Chr CHR ''*'']"

definition key_point_line :: "string \<Rightarrow> item list" where
  "key_point_line line =
     (let line_stripped = strip line in
      if length line_stripped > 20 \<and> length line_stripped < 150 \<and>
         re_match False key_point_pattern line_stripped
      then [(''Key Point'', line_stripped)] else [])"

definition key_point_scan :: "string list \<Rightarrow> item list" where
  "key_point_scan lines = concat (map key_point_line lines)"

text \<open>The entity loop reads the length of \<open>results\<close>, so it threads the list.\<close>

fun other_entity_scan :: "entity list \<Rightarrow> item list \<Rightarrow> item list" where
  "other_entity_scan [] results = results"
| "other_entity_scan (ent # es) results =
     other_entity_scan es
       (if ent_label ent = ''PERSON'' \<and> length results < 30
          then results @ [(''Person'', ent_text ent)]
        else if ent_label ent = ''ORG'' \<and> length results < 30
          then (if \<not> str_in ''court'' (lower (ent_text ent))
                then results @ [(''Organization'', ent_text ent)] else results)
        else results)"

definition other_results :: "string \<Rightarrow> doc \<Rightarrow> item list" where
  "other_results text d = other_entity_scan (ents d) (key_point_scan (split CHR 0x0A text))"

definition extract_other_details :: "string \<Rightarrow> doc \<Rightarrow> item list" where
  "extract_other_details text d = take 15 (dedup snd {} (other_results text d))"

subsection \<open>analyze_document\<close>

datatype error = ValueError string

record analysis =
  case_info :: "item list"
  tax_amounts :: "item list"
  dates :: "item list"
  legal_refs :: "item list"
  other :: "item list"

definition analyze_document :: "(string \<Rightarrow> doc) \<Rightarrow> string \<Rightarrow> error + analysis" where
  "analyze_document nlp text0 =
     (if text0 = [] \<or> length (strip text0) < 100
      then Inl (ValueError ''Document text is too short or empty'')
      else
        (let max_length = 1000000;
             text = (if length text0 > max_length then take max_length text0 else text0);
             d = nlp text in
         Inr \<lparr>case_info = extract_case_info text d,
              tax_amounts = extract_tax_amounts text d,
              dates = extract_dates text d,
              legal_refs = extract_legal_references text,
              other = extract_other_details text d\<rparr>))"

section \<open>Inputs used as examples\<close>

text \<open>A recognizer that finds no entity.\<close>

definition no_entities :: "string \<Rightarrow> doc" where
  "no_entities text = \<lparr>ents = [], doc_len = 0, span_text = (\<lambda>start end. [])\<rparr>"

text \<open>A text of 1,000,100 characters whose first 1,000,000 are blanks.\<close>

definition blank_prefix_text :: string where
  "blank_prefix_text = replicate 1000000 CHR '' '' @ replicate 100 CHR ''a''"

text \<open>A text of 1,000,004 characters without blanks.\<close>

definition long_text :: string where
  "long_text = replicate 1000000 CHR ''a'' @ ''tail''"

text \<open>
  The entity loop of extract_other_details as C4 words it: the gate of 30 counts the
  items that the entity loop itself has added.
\<close>

fun other_entity_scan_claimed :: "entity list \<Rightarrow> nat \<Rightarrow> item list \<Rightarrow> item list" where
  "other_entity_scan_claimed [] added results = results"
| "other_entity_scan_claimed (ent # es) added results =
     (if ent_label ent = ''PERSON'' \<and> added < 30
        then other_entity_scan_claimed es (Suc added) (results @ [(''Person'', ent_text ent)])
      else if ent_label ent = ''ORG'' \<and> added < 30 \<and> \<not> str_in ''court'' (lower (ent_text ent))
        then other_entity_scan_claimed es (Suc added)
               (results @ [(''Organization'', ent_text ent)])
      else other_entity_scan_claimed es added results)"

text \<open>Thirty lines that are key points, and a recognizer's reading with one person.\<close>

definition key_point_example :: string where
  "key_point_example = ''1. The taxpayer filed late''"

definition thirty_key_points :: string where
  "thirty_key_points = concat (replicate 30 (key_point_example @ [CHR 0x0A]))"

definition one_person :: doc where
  "one_person = \<lparr>ents = [\<lparr>ent_label = ''PERSON'', ent_text = ''Ann Lee'', ent_start = 0,
                           ent_end = 2\<rparr>],
                 doc_len = 210, span_text = (\<lambda>start end. [])\<rparr>"

text \<open>Lines for the line scan of extract_tax_amounts.\<close>

definition penalty_line :: string where
  "penalty_line = ''Penalty assessed: $1,250.00 due immediately''"

definition ten_char_line :: string where
  "ten_char_line = ''tax $12345''"

text \<open>A line of 201 characters, which every line scan skips, to fill a text.\<close>

definition padding :: string where
  "padding = replicate 201 CHR ''x''"

text \<open>A line with \<open>tax\<close> inside a word only, and a text that holds it.\<close>

definition syntax_line :: string where
  "syntax_line = ''The syntax fee is $50.00 in total''"

definition syntax_text :: string where
  "syntax_text = syntax_line @ CHR 0x0A # padding"

text \<open>The same line with \<open>sync\<close> for \<open>syntax\<close>: no tax keyword is left in it.\<close>

definition sync_line :: string where
  "sync_line = ''The sync fee is $50.00 in total''"

definition sync_text :: string where
  "sync_text = sync_line @ CHR 0x0A # padding"

text \<open>A party line with nothing after its colon, and a text that holds it.\<close>

definition plaintiff_line :: string where
  "plaintiff_line = ''Plaintiff:''"

definition plaintiff_text :: string where
  "plaintiff_text = plaintiff_line @ CHR 0x0A # padding"

text \<open>The line of the deadline scenario: in a text beyond the bound, and in a short text.\<close>

definition deadline_line :: string where
  "deadline_line = ''Filing deadline: 04/15/2024''"

definition late_deadline_text :: string where
  "late_deadline_text = replicate 1000000 CHR ''a'' @ CHR 0x0A # deadline_line"

definition deadline_text :: string where
  "deadline_text = deadline_line @ CHR 0x0A # padding"

text \<open>The line of the section scenario: in a text beyond the bound, and in a short text.\<close>

definition section_line :: string where
  "section_line = ''See Section 501(c)(3) for exemption details''"

definition late_section_text :: string where
  "late_section_text = replicate 1000000 CHR ''a'' @ CHR 0x0A # section_line"

definition section_text :: string where
  "section_text = section_line @ CHR 0x0A # padding"




text \<open>
  Texts in which the line of a scenario comes after as many lines with an item as the
  category keeps: 20 numbered deadline lines, 25 numbered section lines.
\<close>

definition numbered_deadline :: "nat \<Rightarrow> string" where
  "numbered_deadline i = ''deadline 1/1/11'' @ replicate i CHR ''0''"

definition capped_deadline_text :: string where
  "capped_deadline_text =
     concat (map (\<lambda>l. l @ [CHR 0x0A]) (map numbered_deadline [0..<20])) @ deadline_line"

definition numbered_section :: "nat \<Rightarrow> string" where
  "numbered_section i = section_line @ replicate (Suc i) CHR ''.''"

definition capped_section_text :: string where
  "capped_section_text =
     concat (map (\<lambda>l. l @ [CHR 0x0A]) (map numbered_section [0..<25])) @ section_line"

text \<open>The same lines after the line of the scenario.\<close>

definition deadline_first_text :: string where
  "deadline_first_text = deadline_line @ CHR 0x0A # capped_deadline_text"

definition section_first_text :: string where
  "section_first_text = section_line @ CHR 0x0A # capped_section_text"

section \<open>The character functions on the characters of the examples\<close>

lemma lower_char_ev:
  "lower_char (CHR 0x09) = CHR 0x09" "lower_char (CHR 0x0A) = CHR 0x0A"
  "lower_char (CHR 0x0D) = CHR 0x0D" "lower_char (CHR '' '') = CHR '' ''"
  "lower_char (CHR ''!'') = CHR ''!''" "lower_char (CHR 0x22) = CHR 0x22"
  "lower_char (CHR ''#'') = CHR ''#''" "lower_char (CHR ''$'') = CHR ''$''"
  "lower_char (CHR ''%'') = CHR ''%''" "lower_char (CHR ''&'') = CHR ''&''"
  "lower_char (CHR 0x27) = CHR 0x27" "lower_char (CHR ''('') = CHR ''(''"
  "lower_char (CHR '')'') = CHR '')''" "lower_char (CHR ''*'') = CHR ''*''"
  "lower_char (CHR ''+'') = CHR ''+''" "lower_char (CHR '','') = CHR '',''"
  "lower_char (CHR ''-'') = CHR ''-''" "lower_char (CHR ''.'') = CHR ''.''"
  "lower_char (CHR ''/'') = CHR ''/''" "lower_char (CHR ''0'') = CHR ''0''"
  "lower_char (CHR ''1'') = CHR ''1''" "lower_char (CHR ''2'') = CHR ''2''"
  "lower_char (CHR ''3'') = CHR ''3''" "lower_char (CHR ''4'') = CHR ''4''"
  "lower_char (CHR ''5'') = CHR ''5''" "lower_char (CHR ''6'') = CHR ''6''"
  "lower_char (CHR ''7'') = CHR ''7''" "lower_char (CHR ''8'') = CHR ''8''"
  "lower_char (CHR ''9'') = CHR ''9''" "lower_char (CHR '':'') = CHR '':''"
  "lower_char (CHR '';'') = CHR '';''" "lower_char (CHR ''<'') = CHR ''<''"
  "lower_char (CHR ''='') = CHR ''=''" "lower_char (CHR ''>'') = CHR ''>''"
  "lower_char (CHR ''?'') = CHR ''?''" "lower_char (CHR ''@'') = CHR ''@''"
  "lower_char (CHR ''A'') = CHR ''a''" "lower_char (CHR ''B'') = CHR ''b''"
  "lower_char (CHR ''C'') = CHR ''c''" "lower_char (CHR ''D'') = CHR ''d''"
  "lower_char (CHR ''E'') = CHR ''e''" "lower_char (CHR ''F'') = CHR ''f''"
  "lower_char (CHR ''G'') = CHR ''g''" "lower_char (CHR ''H'') = CHR ''h''"
  "lower_char (CHR ''I'') = CHR ''i''" "lower_char (CHR ''J'') = CHR ''j''"
  "lower_char (CHR ''K'') = CHR ''k''" "lower_char (CHR ''L'') = CHR ''l''"
  "lower_char (CHR ''M'') = CHR ''m''" "lower_char (CHR ''N'') = CHR ''n''"
  "lower_char (CHR ''O'') = CHR ''o''" "lower_char (CHR ''P'') = CHR ''p''"
  "lower_char (CHR ''Q'') = CHR ''q''" "lower_char (CHR ''R'') = CHR ''r''"
  "lower_char (CHR ''S'') = CHR ''s''" "lower_char (CHR ''T'') = CHR ''t''"
  "lower_char (CHR ''U'') = CHR ''u''" "lower_char (CHR ''V'') = CHR ''v''"
  "lower_char (CHR ''W'') = CHR ''w''" "lower_char (CHR ''X'') = CHR ''x''"
  "lower_char (CHR ''Y'') = CHR ''y''" "lower_char (CHR ''Z'') = CHR ''z''"
  "lower_char (CHR ''['') = CHR ''[''" "lower_char (CHR 0x5C) = CHR 0x5C"
  "lower_char (CHR '']'') = CHR '']''" "lower_char (CHR ''^'') = CHR ''^''"
  "lower_char (CHR ''_'') = CHR ''_''" "lower_char (CHR 0x60) = CHR 0x60"
  "lower_char (CHR ''a'') = CHR ''a''" "lower_char (CHR ''b'') = CHR ''b''"
  "lower_char (CHR ''c'') = CHR ''c''" "lower_char (CHR ''d'') = CHR ''d''"
  "lower_char (CHR ''e'') = CHR ''e''" "lower_char (CHR ''f'') = CHR ''f''"
  "lower_char (CHR ''g'') = CHR ''g''" "lower_char (CHR ''h'') = CHR ''h''"
  "lower_char (CHR ''i'') = CHR ''i''" "lower_char (CHR ''j'') = CHR ''j''"
  "lower_char (CHR ''k'') = CHR ''k''" "lower_char (CHR ''l'') = CHR ''l''"
  "lower_char (CHR ''m'') = CHR ''m''" "lower_char (CHR ''n'') = CHR ''n''"
  "lower_char (CHR ''o'') = CHR ''o''" "lower_char (CHR ''p'') = CHR ''p''"
  "lower_char (CHR ''q'') = CHR ''q''" "lower_char (CHR ''r'') = CHR ''r''"
  "lower_char (CHR ''s'') = CHR ''s''" "lower_char (CHR ''t'') = CHR ''t''"
  "lower_char (CHR ''u'') = CHR ''u''" "lower_char (CHR ''v'') = CHR ''v''"
  "lower_char (CHR ''w'') = CHR ''w''" "lower_char (CHR ''x'') = CHR ''x''"
  "lower_char (CHR ''y'') = CHR ''y''" "lower_char (CHR ''z'') = CHR ''z''"
  "lower_char (CHR ''{'') = CHR ''{''" "lower_char (CHR ''|'') = CHR ''|''"
  "lower_char (CHR ''}'') = CHR ''}''" "lower_char (CHR ''~'') = CHR ''~''"
  "lower_char (CHR 0xA2) = CHR 0xA2" "lower_char (CHR 0xAC) = CHR 0xAC"
  "lower_char (CHR 0xC4) = CHR 0xE4" "lower_char (CHR 0xDF) = CHR 0xDF"
  by code_simp+

lemma upper_char_ev:
  "upper_char (CHR 0x09) = CHR 0x09" "upper_char (CHR 0x0A) = CHR 0x0A"
  "upper_char (CHR 0x0D) = CHR 0x0D" "upper_char (CHR '' '') = CHR '' ''"
  "upper_char (CHR ''!'') = CHR ''!''" "upper_char (CHR 0x22) = CHR 0x22"
  "upper_char (CHR ''#'') = CHR ''#''" "upper_char (CHR ''$'') = CHR ''$''"
  "upper_char (CHR ''%'') = CHR ''%''" "upper_char (CHR ''&'') = CHR ''&''"
  "upper_char (CHR 0x27) = CHR 0x27" "upper_char (CHR ''('') = CHR ''(''"
  "upper_char (CHR '')'') = CHR '')''" "upper_char (CHR ''*'') = CHR ''*''"
  "upper_char (CHR ''+'') = CHR ''+''" "upper_char (CHR '','') = CHR '',''"
  "upper_char (CHR ''-'') = CHR ''-''" "upper_char (CHR ''.'') = CHR ''.''"
  "upper_char (CHR ''/'') = CHR ''/''" "upper_char (CHR ''0'') = CHR ''0''"
  "upper_char (CHR ''1'') = CHR ''1''" "upper_char (CHR ''2'') = CHR ''2''"
  "upper_char (CHR ''3'') = CHR ''3''" "upper_char (CHR ''4'') = CHR ''4''"
  "upper_char (CHR ''5'') = CHR ''5''" "upper_char (CHR ''6'') = CHR ''6''"
  "upper_char (CHR ''7'') = CHR ''7''" "upper_char (CHR ''8'') = CHR ''8''"
  "upper_char (CHR ''9'') = CHR ''9''" "upper_char (CHR '':'') = CHR '':''"
  "upper_char (CHR '';'') = CHR '';''" "upper_char (CHR ''<'') = CHR ''<''"
  "upper_char (CHR ''='') = CHR ''=''" "upper_char (CHR ''>'') = CHR ''>''"
  "upper_char (CHR ''?'') = CHR ''?''" "upper_char (CHR ''@'') = CHR ''@''"
  "upper_char (CHR ''A'') = CHR ''A''" "upper_char (CHR ''B'') = CHR ''B''"
  "upper_char (CHR ''C'') = CHR ''C''" "upper_char (CHR ''D'') = CHR ''D''"
  "upper_char (CHR ''E'') = CHR ''E''" "upper_char (CHR ''F'') = CHR ''F''"
  "upper_char (CHR ''G'') = CHR ''G''" "upper_char (CHR ''H'') = CHR ''H''"
  "upper_char (CHR ''I'') = CHR ''I''" "upper_char (CHR ''J'') = CHR ''J''"
  "upper_char (CHR ''K'') = CHR ''K''" "upper_char (CHR ''L'') = CHR ''L''"
  "upper_char (CHR ''M'') = CHR ''M''" "upper_char (CHR ''N'') = CHR ''N''"
  "upper_char (CHR ''O'') = CHR ''O''" "upper_char (CHR ''P'') = CHR ''P''"
  "upper_char (CHR ''Q'') = CHR ''Q''" "upper_char (CHR ''R'') = CHR ''R''"
  "upper_char (CHR ''S'') = CHR ''S''" "upper_char (CHR ''T'') = CHR ''T''"
  "upper_char (CHR ''U'') = CHR ''U''" "upper_char (CHR ''V'') = CHR ''V''"
  "upper_char (CHR ''W'') = CHR ''W''" "upper_char (CHR ''X'') = CHR ''X''"
  "upper_char (CHR ''Y'') = CHR ''Y''" "upper_char (CHR ''Z'') = CHR ''Z''"
  "upper_char (CHR ''['') = CHR ''[''" "upper_char (CHR 0x5C) = CHR 0x5C"
  "upper_char (CHR '']'') = CHR '']''" "upper_char (CHR ''^'') = CHR ''^''"
  "upper_char (CHR ''_'') = CHR ''_''" "upper_char (CHR 0x60) = CHR 0x60"
  "upper_char (CHR ''a'') = CHR ''A''" "upper_char (CHR ''b'') = CHR ''B''"
  "upper_char (CHR ''c'') = CHR ''C''" "upper_char (CHR ''d'') = CHR ''D''"
  "upper_char (CHR ''e'') = CHR ''E''" "upper_char (CHR ''f'') = CHR ''F''"
  "upper_char (CHR ''g'') = CHR ''G''" "upper_char (CHR ''h'') = CHR ''H''"
  "upper_char (CHR ''i'') = CHR ''I''" "upper_char (CHR ''j'') = CHR ''J''"
  "upper_char (CHR ''k'') = CHR ''K''" "upper_char (CHR ''l'') = CHR ''L''"
  "upper_char (CHR ''m'') = CHR ''M''" "upper_char (CHR ''n'') = CHR ''N''"
  "upper_char (CHR ''o'') = CHR ''O''" "upper_char (CHR ''p'') = CHR ''P''"
  "upper_char (CHR ''q'') = CHR ''Q''" "upper_char (CHR ''r'') = CHR ''R''"
  "upper_char (CHR ''s'') = CHR ''S''" "upper_char (CHR ''t'') = CHR ''T''"
  "upper_char (CHR ''u'') = CHR ''U''" "upper_char (CHR ''v'') = CHR ''V''"
  "upper_char (CHR ''w'') = CHR ''W''" "upper_char (CHR ''x'') = CHR ''X''"
  "upper_char (CHR ''y'') = CHR ''Y''" "upper_char (CHR ''z'') = CHR ''Z''"
  "upper_char (CHR ''{'') = CHR ''{''" "upper_char (CHR ''|'') = CHR ''|''"
  "upper_char (CHR ''}'') = CHR ''}''" "upper_char (CHR ''~'') = CHR ''~''"
  "upper_char (CHR 0xA2) = CHR 0xA2" "upper_char (CHR 0xAC) = CHR 0xAC"
  "upper_char (CHR 0xC4) = CHR 0xC4" "upper_char (CHR 0xDF) = CHR 0xDF"
  by code_simp+

lemma of_char_ev:
  "of_char (CHR 0x09) = (9::nat)" "of_char (CHR 0x0A) = (10::nat)"
  "of_char (CHR 0x0D) = (13::nat)" "of_char (CHR '' '') = (32::nat)"
  "of_char (CHR ''!'') = (33::nat)" "of_char (CHR 0x22) = (34::nat)"
  "of_char (CHR ''#'') = (35::nat)" "of_char (CHR ''$'') = (36::nat)"
  "of_char (CHR ''%'') = (37::nat)" "of_char (CHR ''&'') = (38::nat)"
  "of_char (CHR 0x27) = (39::nat)" "of_char (CHR ''('') = (40::nat)"
  "of_char (CHR '')'') = (41::nat)" "of_char (CHR ''*'') = (42::nat)"
  "of_char (CHR ''+'') = (43::nat)" "of_char (CHR '','') = (44::nat)"
  "of_char (CHR ''-'') = (45::nat)" "of_char (CHR ''.'') = (46::nat)"
  "of_char (CHR ''/'') = (47::nat)" "of_char (CHR ''0'') = (48::nat)"
  "of_char (CHR ''1'') = (49::nat)" "of_char (CHR ''2'') = (50::nat)"
  "of_char (CHR ''3'') = (51::nat)" "of_char (CHR ''4'') = (52::nat)"
  "of_char (CHR ''5'') = (53::nat)" "of_char (CHR ''6'') = (54::nat)"
  "of_char (CHR ''7'') = (55::nat)" "of_char (CHR ''8'') = (56::nat)"
  "of_char (CHR ''9'') = (57::nat)" "of_char (CHR '':'') = (58::nat)"
  "of_char (CHR '';'') = (59::nat)" "of_char (CHR ''<'') = (60::nat)"
  "of_char (CHR ''='') = (61::nat)" "of_char (CHR ''>'') = (62::nat)"
  "of_char (CHR ''?'') = (63::nat)" "of_char (CHR ''@'') = (64::nat)"
  "of_char (CHR ''A'') = (65::nat)" "of_char (CHR ''B'') = (66::nat)"
  "of_char (CHR ''C'') = (67::nat)" "of_char (CHR ''D'') = (68::nat)"
  "of_char (CHR ''E'') = (69::nat)" "of_char (CHR ''F'') = (70::nat)"
  "of_char (CHR ''G'') = (71::nat)" "of_char (CHR ''H'') = (72::nat)"
  "of_char (CHR ''I'') = (73::nat)" "of_char (CHR ''J'') = (74::nat)"
  "of_char (CHR ''K'') = (75::nat)" "of_char (CHR ''L'') = (76::nat)"
  "of_char (CHR ''M'') = (77::nat)" "of_char (CHR ''N'') = (78::nat)"
  "of_char (CHR ''O'') = (79::nat)" "of_char (CHR ''P'') = (80::nat)"
  "of_char (CHR ''Q'') = (81::nat)" "of_char (CHR ''R'') = (82::nat)"
  "of_char (CHR ''S'') = (83::nat)" "of_char (CHR ''T'') = (84::nat)"
  "of_char (CHR ''U'') = (85::nat)" "of_char (CHR ''V'') = (86::nat)"
  "of_char (CHR ''W'') = (87::nat)" "of_char (CHR ''X'') = (88::nat)"
  "of_char (CHR ''Y'') = (89::nat)" "of_char (CHR ''Z'') = (90::nat)"
  "of_char (CHR ''['') = (91::nat)" "of_char (CHR 0x5C) = (92::nat)"
  "of_char (CHR '']'') = (93::nat)" "of_char (CHR ''^'') = (94::nat)"
  "of_char (CHR ''_'') = (95::nat)" "of_char (CHR 0x60) = (96::nat)"
  "of_char (CHR ''a'') = (97::nat)" "of_char (CHR ''b'') = (98::nat)"
  "of_char (CHR ''c'') = (99::nat)" "of_char (CHR ''d'') = (100::nat)"
  "of_char (CHR ''e'') = (101::nat)" "of_char (CHR ''f'') = (102::nat)"
  "of_char (CHR ''g'') = (103::nat)" "of_char (CHR ''h'') = (104::nat)"
  "of_char (CHR ''i'') = (105::nat)" "of_char (CHR ''j'') = (106::nat)"
  "of_char (CHR ''k'') = (107::nat)" "of_char (CHR ''l'') = (108::nat)"
  "of_char (CHR ''m'') = (109::nat)" "of_char (CHR ''n'') = (110::nat)"
  "of_char (CHR ''o'') = (111::nat)" "of_char (CHR ''p'') = (112::nat)"
  "of_char (CHR ''q'') = (113::nat)" "of_char (CHR ''r'') = (114::nat)"
  "of_char (CHR ''s'') = (115::nat)" "of_char (CHR ''t'') = (116::nat)"
  "of_char (CHR ''u'') = (117::nat)" "of_char (CHR ''v'') = (118::nat)"
  "of_char (CHR ''w'') = (119::nat)" "of_char (CHR ''x'') = (120::nat)"
  "of_char (CHR ''y'') = (121::nat)" "of_char (CHR ''z'') = (122::nat)"
  "of_char (CHR ''{'') = (123::nat)" "of_char (CHR ''|'') = (124::nat)"
  "of_char (CHR ''}'') = (125::nat)" "of_char (CHR ''~'') = (126::nat)"
  "of_char (CHR 0xA2) = (162::nat)" "of_char (CHR 0xAC) = (172::nat)"
  "of_char (CHR 0xC4) = (196::nat)" "of_char (CHR 0xDF) = (223::nat)"
  by simp_all

lemma isspace_ev:
  "isspace (CHR 0x09)" "isspace (CHR 0x0A)" "isspace (CHR 0x0D)"
  "isspace (CHR '' '')" "\<not> isspace (CHR ''!'')" "\<not> isspace (CHR 0x22)"
  "\<not> isspace (CHR ''#'')" "\<not> isspace (CHR ''$'')" "\<not> isspace (CHR ''%'')"
  "\<not> isspace (CHR ''&'')" "\<not> isspace (CHR 0x27)" "\<not> isspace (CHR ''('')"
  "\<not> isspace (CHR '')'')" "\<not> isspace (CHR ''*'')" "\<not> isspace (CHR ''+'')"
  "\<not> isspace (CHR '','')" "\<not> isspace (CHR ''-'')" "\<not> isspace (CHR ''.'')"
  "\<not> isspace (CHR ''/'')" "\<not> isspace (CHR ''0'')" "\<not> isspace (CHR ''1'')"
  "\<not> isspace (CHR ''2'')" "\<not> isspace (CHR ''3'')" "\<not> isspace (CHR ''4'')"
  "\<not> isspace (CHR ''5'')" "\<not> isspace (CHR ''6'')" "\<not> isspace (CHR ''7'')"
  "\<not> isspace (CHR ''8'')" "\<not> isspace (CHR ''9'')" "\<not> isspace (CHR '':'')"
  "\<not> isspace (CHR '';'')" "\<not> isspace (CHR ''<'')" "\<not> isspace (CHR ''='')"
  "\<not> isspace (CHR ''>'')" "\<not> isspace (CHR ''?'')" "\<not> isspace (CHR ''@'')"
  "\<not> isspace (CHR ''A'')" "\<not> isspace (CHR ''B'')" "\<not> isspace (CHR ''C'')"
  "\<not> isspace (CHR ''D'')" "\<not> isspace (CHR ''E'')" "\<not> isspace (CHR ''F'')"
  "\<not> isspace (CHR ''G'')" "\<not> isspace (CHR ''H'')" "\<not> isspace (CHR ''I'')"
  "\<not> isspace (CHR ''J'')" "\<not> isspace (CHR ''K'')" "\<not> isspace (CHR ''L'')"
  "\<not> isspace (CHR ''M'')" "\<not> isspace (CHR ''N'')" "\<not> isspace (CHR ''O'')"
  "\<not> isspace (CHR ''P'')" "\<not> isspace (CHR ''Q'')" "\<not> isspace (CHR ''R'')"
  "\<not> isspace (CHR ''S'')" "\<not> isspace (CHR ''T'')" "\<not> isspace (CHR ''U'')"
  "\<not> isspace (CHR ''V'')" "\<not> isspace (CHR ''W'')" "\<not> isspace (CHR ''X'')"
  "\<not> isspace (CHR ''Y'')" "\<not> isspace (CHR ''Z'')" "\<not> isspace (CHR ''['')"
  "\<not> isspace (CHR 0x5C)" "\<not> isspace (CHR '']'')" "\<not> isspace (CHR ''^'')"
  "\<not> isspace (CHR ''_'')" "\<not> isspace (CHR 0x60)" "\<not> isspace (CHR ''a'')"
  "\<not> isspace (CHR ''b'')" "\<not> isspace (CHR ''c'')" "\<not> isspace (CHR ''d'')"
  "\<not> isspace (CHR ''e'')" "\<not> isspace (CHR ''f'')" "\<not> isspace (CHR ''g'')"
  "\<not> isspace (CHR ''h'')" "\<not> isspace (CHR ''i'')" "\<not> isspace (CHR ''j'')"
  "\<not> isspace (CHR ''k'')" "\<not> isspace (CHR ''l'')" "\<not> isspace (CHR ''m'')"
  "\<not> isspace (CHR ''n'')" "\<not> isspace (CHR ''o'')" "\<not> isspace (CHR ''p'')"
  "\<not> isspace (CHR ''q'')" "\<not> isspace (CHR ''r'')" "\<not> isspace (CHR ''s'')"
  "\<not> isspace (CHR ''t'')" "\<not> isspace (CHR ''u'')" "\<not> isspace (CHR ''v'')"
  "\<not> isspace (CHR ''w'')" "\<not> isspace (CHR ''x'')" "\<not> isspace (CHR ''y'')"
  "\<not> isspace (CHR ''z'')" "\<not> isspace (CHR ''{'')" "\<not> isspace (CHR ''|'')"
  "\<not> isspace (CHR ''}'')" "\<not> isspace (CHR ''~'')" "\<not> isspace (CHR 0xA2)"
  "\<not> isspace (CHR 0xAC)" "\<not> isspace (CHR 0xC4)" "\<not> isspace (CHR 0xDF)"
  by (simp_all add: isspace_def whitespace_chars_def)

lemma isdigit_ev:
  "\<not> isdigit (CHR 0x09)" "\<not> isdigit (CHR 0x0A)" "\<not> isdigit (CHR 0x0D)"
  "\<not> isdigit (CHR '' '')" "\<not> isdigit (CHR ''!'')" "\<not> isdigit (CHR 0x22)"
  "\<not> isdigit (CHR ''#'')" "\<not> isdigit (CHR ''$'')" "\<not> isdigit (CHR ''%'')"
  "\<not> isdigit (CHR ''&'')" "\<not> isdigit (CHR 0x27)" "\<not> isdigit (CHR ''('')"
  "\<not> isdigit (CHR '')'')" "\<not> isdigit (CHR ''*'')" "\<not> isdigit (CHR ''+'')"
  "\<not> isdigit (CHR '','')" "\<not> isdigit (CHR ''-'')" "\<not> isdigit (CHR ''.'')"
  "\<not> isdigit (CHR ''/'')" "isdigit (CHR ''0'')" "isdigit (CHR ''1'')"
  "isdigit (CHR ''2'')" "isdigit (CHR ''3'')" "isdigit (CHR ''4'')"
  "isdigit (CHR ''5'')" "isdigit (CHR ''6'')" "isdigit (CHR ''7'')"
  "isdigit (CHR ''8'')" "isdigit (CHR ''9'')" "\<not> isdigit (CHR '':'')"
  "\<not> isdigit (CHR '';'')" "\<not> isdigit (CHR ''<'')" "\<not> isdigit (CHR ''='')"
  "\<not> isdigit (CHR ''>'')" "\<not> isdigit (CHR ''?'')" "\<not> isdigit (CHR ''@'')"
  "\<not> isdigit (CHR ''A'')" "\<not> isdigit (CHR ''B'')" "\<not> isdigit (CHR ''C'')"
  "\<not> isdigit (CHR ''D'')" "\<not> isdigit (CHR ''E'')" "\<not> isdigit (CHR ''F'')"
  "\<not> isdigit (CHR ''G'')" "\<not> isdigit (CHR ''H'')" "\<not> isdigit (CHR ''I'')"
  "\<not> isdigit (CHR ''J'')" "\<not> isdigit (CHR ''K'')" "\<not> isdigit (CHR ''L'')"
  "\<not> isdigit (CHR ''M'')" "\<not> isdigit (CHR ''N'')" "\<not> isdigit (CHR ''O'')"
  "\<not> isdigit (CHR ''P'')" "\<not> isdigit (CHR ''Q'')" "\<not> isdigit (CHR ''R'')"
  "\<not> isdigit (CHR ''S'')" "\<not> isdigit (CHR ''T'')" "\<not> isdigit (CHR ''U'')"
  "\<not> isdigit (CHR ''V'')" "\<not> isdigit (CHR ''W'')" "\<not> isdigit (CHR ''X'')"
  "\<not> isdigit (CHR ''Y'')" "\<not> isdigit (CHR ''Z'')" "\<not> isdigit (CHR ''['')"
  "\<not> isdigit (CHR 0x5C)" "\<not> isdigit (CHR '']'')" "\<not> isdigit (CHR ''^'')"
  "\<not> isdigit (CHR ''_'')" "\<not> isdigit (CHR 0x60)" "\<not> isdigit (CHR ''a'')"
  "\<not> isdigit (CHR ''b'')" "\<not> isdigit (CHR ''c'')" "\<not> isdigit (CHR ''d'')"
  "\<not> isdigit (CHR ''e'')" "\<not> isdigit (CHR ''f'')" "\<not> isdigit (CHR ''g'')"
  "\<not> isdigit (CHR ''h'')" "\<not> isdigit (CHR ''i'')" "\<not> isdigit (CHR ''j'')"
  "\<not> isdigit (CHR ''k'')" "\<not> isdigit (CHR ''l'')" "\<not> isdigit (CHR ''m'')"
  "\<not> isdigit (CHR ''n'')" "\<not> isdigit (CHR ''o'')" "\<not> isdigit (CHR ''p'')"
  "\<not> isdigit (CHR ''q'')" "\<not> isdigit (CHR ''r'')" "\<not> isdigit (CHR ''s'')"
  "\<not> isdigit (CHR ''t'')" "\<not> isdigit (CHR ''u'')" "\<not> isdigit (CHR ''v'')"
  "\<not> isdigit (CHR ''w'')" "\<not> isdigit (CHR ''x'')" "\<not> isdigit (CHR ''y'')"
  "\<not> isdigit (CHR ''z'')" "\<not> isdigit (CHR ''{'')" "\<not> isdigit (CHR ''|'')"
  "\<not> isdigit (CHR ''}'')" "\<not> isdigit (CHR ''~'')" "\<not> isdigit (CHR 0xA2)"
  "\<not> isdigit (CHR 0xAC)" "\<not> isdigit (CHR 0xC4)" "\<not> isdigit (CHR 0xDF)"
  by (simp_all add: isdigit_def)

lemmas char_ev = lower_char_ev upper_char_ev of_char_ev isspace_ev isdigit_ev

section \<open>Strings: basic facts\<close>

lemma str_in_sublist: "str_in k s \<longleftrightarrow> sublist k s"
  by (induction s) (auto simp: sublist_Cons_right)

lemma strip_decomp: "\<exists>a b. s = a @ strip s @ b"
proof -
  let ?t = "dropWhile isspace s"
  have 1: "s = takeWhile isspace s @ ?t" by simp
  have "rev ?t = takeWhile isspace (rev ?t) @ dropWhile isspace (rev ?t)" by simp
  then have "?t = rev (dropWhile isspace (rev ?t)) @ rev (takeWhile isspace (rev ?t))"
    by (metis rev_append rev_rev_ident)
  then have "?t = strip s @ rev (takeWhile isspace (rev ?t))" by (simp add: strip_def)
  with 1 show ?thesis by metis
qed

lemma str_in_lower_strip: "str_in k (lower (strip l)) \<Longrightarrow> str_in k (lower l)"
proof -
  assume a: "str_in k (lower (strip l))"
  obtain x y where l: "l = x @ strip l @ y" using strip_decomp by blast
  have "lower l = lower x @ lower (strip l) @ lower y"
    unfolding lower_def by (subst l) simp
  then have "sublist (lower (strip l)) (lower l)" by (metis sublist_appendI)
  with a show ?thesis unfolding str_in_sublist by (rule sublist_order.order_trans)
qed

lemma strip_replicate:
  "\<not> isspace c \<Longrightarrow> strip (replicate n c) = replicate n c"
  by (simp add: strip_def)

lemma not_isspace_a: "\<not> isspace CHR ''a''"
  by (simp add: isspace_def whitespace_chars_def)

lemma split_ne [simp]: "split sep s \<noteq> []"
  by (induction s) (auto split: list.splits)

lemma split_no_sep: "sep \<notin> set a \<Longrightarrow> split sep a = [a]"
  by (induction a) (auto split: list.splits)

lemma split_append_sep: "sep \<notin> set a \<Longrightarrow> split sep (a @ sep # b) = a # split sep b"
  by (induction a) (auto split: list.splits)

lemma split_lines:
  "\<forall>x \<in> set xs. sep \<notin> set x \<Longrightarrow> sep \<notin> set l \<Longrightarrow>
   split sep (concat (map (\<lambda>x. x @ [sep]) xs) @ l) = xs @ [l]"
  by (induction xs) (simp_all add: split_no_sep split_append_sep)

lemma no_entities_facts: "ents (no_entities t) = []"
  by (simp add: no_entities_def)

section \<open>Validation\<close>

text \<open>
  C1: \<open>analyze_document\<close> fails, with the ValueError of the source, exactly when the
  text is empty or its stripped length is below 100; the text \<open>short\<close> is rejected
  with that error, and a text of stripped length at least 100 yields a result.
\<close>

theorem analyze_document_validation:
  "((\<exists>e. analyze_document nlp text = Inl e) \<longleftrightarrow> (text = [] \<or> length (strip text) < 100)) \<and>
   (text = [] \<or> length (strip text) < 100 \<longrightarrow>
      analyze_document nlp text = Inl (ValueError ''Document text is too short or empty'')) \<and>
   analyze_document nlp ''short'' = Inl (ValueError ''Document text is too short or empty'') \<and>
   (100 \<le> length (strip text) \<longrightarrow> (\<exists>r. analyze_document nlp text = Inr r))"
proof -
  have short: "length (strip ''short'') < 100"
    by (simp add: strip_def isspace_def whitespace_chars_def)
  have ne: "100 \<le> length (strip text) \<Longrightarrow> text \<noteq> []"
    by (auto simp: strip_def)
  show ?thesis
    using short ne by (auto simp: analyze_document_def Let_def)
qed

theorem analyze_document_validation_witness:
  "100 \<le> length (strip (replicate 100 CHR ''a'')) \<and>
   (\<exists>r. analyze_document no_entities (replicate 100 CHR ''a'') = Inr r) \<and>
   (\<exists>e. analyze_document no_entities [] = Inl e)"
  using analyze_document_validation [of no_entities "replicate 100 CHR ''a''"]
        analyze_document_validation [of no_entities "[]"]
  by (simp add: strip_replicate not_isspace_a)

section \<open>Truncation\<close>

lemma isspace_space: "isspace CHR '' ''"
  by (simp add: isspace_def whitespace_chars_def)

lemma strip_blank_prefix_text: "strip blank_prefix_text = replicate 100 CHR ''a''"
proof -
  have "dropWhile isspace blank_prefix_text = replicate 100 CHR ''a''"
    unfolding blank_prefix_text_def
    by (subst dropWhile_append2) (auto simp: isspace_space not_isspace_a)
  then show ?thesis by (simp add: strip_def not_isspace_a)
qed

lemma blank_prefix_text_ne: "blank_prefix_text \<noteq> []"
  by (simp add: blank_prefix_text_def)

lemma take_blank_prefix_text: "take 1000000 blank_prefix_text = replicate 1000000 CHR '' ''"
  by (simp add: blank_prefix_text_def)

lemma strip_blanks: "strip (replicate n CHR '' '') = []"
  by (simp add: strip_def isspace_space)

lemma truncated_text: "(if length t > n then take n t else t) = take n t"
  by simp

lemma strip_long_text: "strip long_text = long_text"
  by (simp add: long_text_def strip_def not_isspace_a isspace_def whitespace_chars_def)

text \<open>
  C2, as stated, fails: the check of the length reads the whole text, before it is cut.
  A text of 1,000,000 blanks followed by 100 letters is analyzed (on its blank prefix),
  while its first 1,000,000 characters alone are rejected.
\<close>

theorem truncation_counterexample:
  "analyze_document no_entities blank_prefix_text \<noteq>
   analyze_document no_entities (take 1000000 blank_prefix_text)"
proof -
  have "\<not> isl (analyze_document no_entities blank_prefix_text)"
    by (simp add: analyze_document_def strip_blank_prefix_text Let_def blank_prefix_text_ne)
  moreover have "isl (analyze_document no_entities (take 1000000 blank_prefix_text))"
    by (simp add: analyze_document_def take_blank_prefix_text strip_blanks)
  ultimately show ?thesis by metis
qed

text \<open>
  C2, amended: two texts that both pass the check of the length and have the same first
  1,000,000 characters are analyzed alike, so nothing after that bound reaches the
  result or the recognizer. In particular a text that passes the check is analyzed as
  its first 1,000,000 characters are, whenever these pass the check themselves.
\<close>

theorem analyze_document_truncation:
  "\<not> (t1 = [] \<or> length (strip t1) < 100) \<Longrightarrow> \<not> (t2 = [] \<or> length (strip t2) < 100) \<Longrightarrow>
   take 1000000 t1 = take 1000000 t2 \<Longrightarrow>
   analyze_document nlp t1 = analyze_document nlp t2"
  by (simp add: analyze_document_def Let_def truncated_text del: One_nat_def)

theorem analyze_document_truncation_witness:
  "length long_text > 1000000 \<and>
   \<not> (long_text = [] \<or> length (strip long_text) < 100) \<and>
   \<not> (take 1000000 long_text = [] \<or> length (strip (take 1000000 long_text)) < 100) \<and>
   analyze_document no_entities long_text = analyze_document no_entities (take 1000000 long_text)"
proof -
  have 1: "\<not> (long_text = [] \<or> length (strip long_text) < 100)"
    by (simp add: strip_long_text) (simp add: long_text_def)
  have 2: "\<not> (take 1000000 long_text = [] \<or> length (strip (take 1000000 long_text)) < 100)"
    by (simp add: long_text_def strip_replicate not_isspace_a)
  have 3: "length long_text > 1000000" by (simp add: long_text_def)
  from analyze_document_truncation [OF 1 2, of no_entities] 1 2 3 show ?thesis by simp
qed

section \<open>Removing duplicates\<close>

lemma dedup_keys_notin: "x \<in> set (dedup key seen xs) \<Longrightarrow> key x \<notin> seen"
  by (induction xs arbitrary: seen) (auto split: if_splits)

lemma dedup_distinct: "distinct (map key (dedup key seen xs))"
  by (induction xs arbitrary: seen) (auto dest: dedup_keys_notin)

lemma dedup_subseq: "subseq (dedup key seen xs) xs"
  by (induction xs arbitrary: seen) auto

lemma remdups_snoc: "remdups (ys @ [a]) = remdups (filter (\<lambda>y. y \<noteq> a) ys) @ [a]"
  by (induction ys) auto

lemma dedup_keys:
  "map key (dedup key seen xs) = rev (remdups (rev (filter (\<lambda>k. k \<notin> seen) (map key xs))))"
proof (induction xs arbitrary: seen)
  case Nil
  then show ?case by simp
next
  case (Cons x xs)
  show ?case
  proof (cases "key x \<in> seen")
    case True
    then show ?thesis using Cons by simp
  next
    case False
    let ?F = "filter (\<lambda>k. k \<notin> seen) (map key xs)"
    have F: "filter (\<lambda>k. k \<notin> insert (key x) seen) (map key xs) = filter (\<lambda>k. k \<noteq> key x) ?F"
      by (induction xs) auto
    have "map key (dedup key seen (x # xs)) = key x # map key (dedup key (insert (key x) seen) xs)"
      using False by simp
    also have "\<dots> = key x # rev (remdups (rev (filter (\<lambda>k. k \<noteq> key x) ?F)))"
      by (simp only: Cons F)
    also have "\<dots> = rev (remdups (filter (\<lambda>k. k \<noteq> key x) (rev ?F)) @ [key x])"
      by (simp add: rev_filter)
    also have "\<dots> = rev (remdups (rev ?F @ [key x]))"
      by (simp only: remdups_snoc)
    also have "\<dots> = rev (remdups (rev (filter (\<lambda>k. k \<notin> seen) (map key (x # xs)))))"
      using False by simp
    finally show ?thesis .
  qed
qed

lemma dedup_distinct_keys:
  "distinct (map key xs) \<Longrightarrow> key ` set xs \<inter> seen = {} \<Longrightarrow> dedup key seen xs = xs"
  by (induction xs arbitrary: seen) auto

lemma dedup_find:
  "x \<in> set (dedup key seen xs) \<Longrightarrow> find (\<lambda>y. key y = key x) xs = Some x"
proof (induction xs arbitrary: seen)
  case Nil
  then show ?case by simp
next
  case (Cons a xs)
  then show ?case
    by (auto split: if_splits dest: dedup_keys_notin)
qed


lemma capped_dedup:
  assumes "out = take cap (dedup key {} stream)"
  shows "distinct (map key out) \<and> length out \<le> cap \<and> subseq out stream \<and>
         map key out = take cap (rev (remdups (rev (map key stream)))) \<and>
         (\<forall>x \<in> set out. find (\<lambda>y. key y = key x) stream = Some x)"
proof -
  have m: "map key out = take cap (map key (dedup key {} stream))"
    by (simp only: assms take_map)
  have 1: "distinct (map key out)"
    by (simp only: m) (rule distinct_take, rule dedup_distinct)
  have 2: "length out \<le> cap" by (simp only: assms length_take min.cobounded2)
  have "subseq out (dedup key {} stream)"
    unfolding assms by (rule prefix_imp_subseq, rule take_is_prefix)
  then have 3: "subseq out stream"
    by (rule subseq_order.order_trans) (rule dedup_subseq)
  have 4: "map key out = take cap (rev (remdups (rev (map key stream))))"
    by (simp only: m dedup_keys [where seen = "{}"]) simp
  have 5: "\<forall>x \<in> set out. find (\<lambda>y. key y = key x) stream = Some x"
  proof
    fix x assume "x \<in> set out"
    then have "x \<in> set (dedup key {} stream)" unfolding assms by (rule in_set_takeD)
    then show "find (\<lambda>y. key y = key x) stream = Some x" by (rule dedup_find)
  qed
  from 1 2 3 4 5 show ?thesis by blast
qed

text \<open>
  Where the first item with a key stands in the result: after the items of the keys
  before it, so the cap keeps it exactly when these keys are fewer than the cap.
\<close>

lemma dedup_append:
  "dedup key seen (A @ B) = dedup key seen A @ dedup key (seen \<union> key ` set A) B"
proof (induction A arbitrary: seen)
  case Nil
  then show ?case by simp
next
  case (Cons a A)
  show ?case
  proof (cases "key a \<in> seen")
    case True
    then have "seen \<union> key ` set (a # A) = seen \<union> key ` set A" by auto
    then show ?thesis using True Cons [of seen] by simp
  next
    case False
    have "seen \<union> key ` set (a # A) = insert (key a) seen \<union> key ` set A" by auto
    then show ?thesis using False Cons [of "insert (key a) seen"] by simp
  qed
qed

lemma dedup_length: "length (dedup key {} A) = length (remdups (map key A))"
proof -
  have "length (dedup key {} A) = length (map key (dedup key {} A))" by simp
  also have "\<dots> = length (remdups (rev (map key A)))"
    by (simp only: dedup_keys) simp
  also have "\<dots> = length (remdups (map key A))"
    by (simp only: length_remdups_card_conv set_rev)
  finally show ?thesis .
qed

lemma dedup_set: "set (dedup key seen A) \<subseteq> set A"
  by (induction A arbitrary: seen) auto

lemma dedup_first_occurrence:
  assumes "key x \<notin> key ` set A"
  shows "x \<in> set (take n (dedup key {} (A @ x # B))) \<longleftrightarrow> length (remdups (map key A)) < n"
proof -
  let ?D = "dedup key {} A"
  let ?E = "dedup key (insert (key x) (key ` set A)) B"
  have d: "dedup key {} (A @ x # B) = ?D @ x # ?E"
    using assms by (simp add: dedup_append)
  have nx: "x \<notin> set ?D" using assms dedup_set [of key "{}" A] by auto
  have l: "length ?D = length (remdups (map key A))" by (rule dedup_length)
  show ?thesis
  proof (cases "length ?D < n")
    case True
    then have "x \<in> set (take n (?D @ x # ?E))" by (simp add: take_Cons')
    then show ?thesis using True by (simp only: d l)
  next
    case False
    then have "take n (?D @ x # ?E) = take n ?D" by simp
    moreover have "x \<notin> set (take n ?D)" using nx by (auto dest: in_set_takeD)
    ultimately show ?thesis using False by (simp only: d l)
  qed
qed

lemma remdups_length_mono: "set xs \<subseteq> set ys \<Longrightarrow> length (remdups xs) \<le> length (remdups ys)"
  by (simp add: length_remdups_card_conv card_mono)

lemma item_kept_before_cap:
  assumes u: "\<forall>z \<in> set A. key z = key x \<longrightarrow> z = x"
      and c: "length (remdups (map key A)) < n"
  shows "x \<in> set (take n (dedup key {} (A @ x # B)))"
proof (cases "key x \<in> key ` set A")
  case False
  from dedup_first_occurrence [OF False, of n B] c show ?thesis by simp
next
  case True
  then have "x \<in> set A" using u by auto
  then obtain A1 A2 where a: "A = A1 @ x # A2" "x \<notin> set A1"
    by (meson split_list_first)
  have k: "key x \<notin> key ` set A1"
  proof
    assume "key x \<in> key ` set A1"
    then obtain z where z: "z \<in> set A1" "key z = key x" by auto
    then have "z = x" using u a(1) by auto
    with z(1) a(2) show False by simp
  qed
  have "length (remdups (map key A1)) \<le> length (remdups (map key A))"
    by (rule remdups_length_mono) (auto simp: a(1))
  then have "length (remdups (map key A1)) < n" using c by simp
  then have "x \<in> set (take n (dedup key {} (A1 @ x # (A2 @ x # B))))"
    using dedup_first_occurrence [OF k, of n "A2 @ x # B"] by simp
  then show ?thesis by (simp add: a(1))
qed

section \<open>The entity loop of extract_other_details\<close>

lemma other_entity_scan_eq:
  "other_entity_scan es results =
   results @ take (30 - length results)
     (concat (map (\<lambda>ent. if ent_label ent = ''PERSON'' then [(''Person'', ent_text ent)]
                         else if ent_label ent = ''ORG'' \<and> \<not> str_in ''court'' (lower (ent_text ent))
                           then [(''Organization'', ent_text ent)]
                         else []) es))"
proof (induction es arbitrary: results)
  case Nil
  then show ?case by simp
next
  case (Cons ent es)
  show ?case
  proof (cases "length results < 30")
    case True
    then obtain k where k: "30 - length results = Suc k" by (metis Suc_diff_Suc)
    then have k': "30 - Suc (length results) = k" by simp 
    show ?thesis using True k k' by (simp add: Cons del: str_in.simps)
  next
    case False
    then show ?thesis by (simp add: Cons del: str_in.simps)
  qed
qed

section \<open>Deduplication, order and caps of the categories\<close>

lemma capped_dedup_id:
  assumes "out = take cap (dedup id {} stream)"
  shows "distinct out \<and> length out \<le> cap \<and> subseq out stream \<and>
         out = take cap (rev (remdups (rev stream)))"
proof -
  note p = capped_dedup [OF assms]
  from p have "distinct (map id out)" by blast
  then have 1: "distinct out" by simp
  from p have 2: "length out \<le> cap" by blast
  from p have 3: "subseq out stream" by blast
  from p have "map id out = take cap (rev (remdups (rev (map id stream))))" by blast
  then have 4: "out = take cap (rev (remdups (rev stream)))" by simp
  from 1 2 3 4 show ?thesis by blast
qed

lemma other_entity_scan_prefix: "prefix results (other_entity_scan es results)"
  by (subst other_entity_scan_eq) simp

text \<open>
  C3: in the result of a text that passes the check, with \<open>t\<close> the first 1,000,000
  characters and \<open>d\<close> the recognizer's reading of \<open>t\<close>, every category is the
  list of first occurrences of its stream of collected items, cut at its cap: no two
  items share the key (the whole item for case_info, the content elsewhere), the length
  is at most 15, 20, 20, 25 and 15, the items stand in the order of the stream, each is
  the first item of the stream with its key, and the stream is the regex or line pass
  followed by the entity pass.
\<close>

theorem categories_dedup_order_cap:
  assumes "analyze_document nlp text = Inr r"
  shows "let t = take 1000000 text; d = nlp t; lines = split CHR 0x0A t in
    (let out = case_info r; stream = case_number_scan t @ party_scan lines @ court_scan d in
       distinct out \<and> length out \<le> 15 \<and> subseq out stream \<and>
       out = take 15 (rev (remdups (rev stream)))) \<and>
    (let out = tax_amounts r; stream = tax_line_scan lines @ money_scan d in
       distinct (map snd out) \<and> length out \<le> 20 \<and> subseq out stream \<and>
       map snd out = take 20 (rev (remdups (rev (map snd stream)))) \<and>
       (\<forall>x \<in> set out. find (\<lambda>y. snd y = snd x) stream = Some x)) \<and>
    (let out = dates r; stream = date_line_scan lines @ date_scan d in
       distinct (map snd out) \<and> length out \<le> 20 \<and> subseq out stream \<and>
       map snd out = take 20 (rev (remdups (rev (map snd stream)))) \<and>
       (\<forall>x \<in> set out. find (\<lambda>y. snd y = snd x) stream = Some x)) \<and>
    (let out = legal_refs r; stream = concat (map legal_line lines) in
       distinct (map snd out) \<and> length out \<le> 25 \<and> subseq out stream \<and>
       map snd out = take 25 (rev (remdups (rev (map snd stream)))) \<and>
       (\<forall>x \<in> set out. find (\<lambda>y. snd y = snd x) stream = Some x)) \<and>
    (let out = other r; stream = other_entity_scan (ents d) (key_point_scan lines) in
       prefix (key_point_scan lines) stream \<and>
       distinct (map snd out) \<and> length out \<le> 15 \<and> subseq out stream \<and>
       map snd out = take 15 (rev (remdups (rev (map snd stream)))) \<and>
       (\<forall>x \<in> set out. find (\<lambda>y. snd y = snd x) stream = Some x))"
proof -
  define t where "t = take 1000000 text"
  define d where "d = nlp t"
  have r: "r = \<lparr>case_info = extract_case_info t d, tax_amounts = extract_tax_amounts t d,
                dates = extract_dates t d, legal_refs = extract_legal_references t,
                other = extract_other_details t d\<rparr>"
    using assms
    by (simp add: analyze_document_def Let_def truncated_text t_def d_def
             split: if_splits del: One_nat_def)
  have c: "case_info r = take 15 (dedup id {} (case_info_results t d))"
    by (simp add: r extract_case_info_def)
  have ta: "tax_amounts r = take 20 (dedup snd {} (tax_amounts_results t d))"
    by (simp add: r extract_tax_amounts_def)
  have da: "dates r = take 20 (dedup snd {} (dates_results t d))"
    by (simp add: r extract_dates_def)
  have le: "legal_refs r = take 25 (dedup snd {} (legal_results t))"
    by (simp add: r extract_legal_references_def)
  have ot: "other r = take 15 (dedup snd {} (other_results t d))"
    by (simp add: r extract_other_details_def)
  let ?lines = "split CHR 0x0A t"
  have 1: "let out = case_info r; stream = case_number_scan t @ party_scan ?lines @ court_scan d in
       distinct out \<and> length out \<le> 15 \<and> subseq out stream \<and>
       out = take 15 (rev (remdups (rev stream)))"
    using capped_dedup_id [OF c] unfolding case_info_results_def Let_def by blast
  have 2: "let out = tax_amounts r; stream = tax_line_scan ?lines @ money_scan d in
       distinct (map snd out) \<and> length out \<le> 20 \<and> subseq out stream \<and>
       map snd out = take 20 (rev (remdups (rev (map snd stream)))) \<and>
       (\<forall>x \<in> set out. find (\<lambda>y. snd y = snd x) stream = Some x)"
    using capped_dedup [OF ta] unfolding tax_amounts_results_def Let_def by blast
  have 3: "let out = dates r; stream = date_line_scan ?lines @ date_scan d in
       distinct (map snd out) \<and> length out \<le> 20 \<and> subseq out stream \<and>
       map snd out = take 20 (rev (remdups (rev (map snd stream)))) \<and>
       (\<forall>x \<in> set out. find (\<lambda>y. snd y = snd x) stream = Some x)"
    using capped_dedup [OF da] unfolding dates_results_def Let_def by blast
  have 4: "let out = legal_refs r; stream = concat (map legal_line ?lines) in
       distinct (map snd out) \<and> length out \<le> 25 \<and> subseq out stream \<and>
       map snd out = take 25 (rev (remdups (rev (map snd stream)))) \<and>
       (\<forall>x \<in> set out. find (\<lambda>y. snd y = snd x) stream = Some x)"
    using capped_dedup [OF le] unfolding legal_results_def Let_def by blast
  have 5: "let out = other r; stream = other_entity_scan (ents d) (key_point_scan ?lines) in
       prefix (key_point_scan ?lines) stream \<and>
       distinct (map snd out) \<and> length out \<le> 15 \<and> subseq out stream \<and>
       map snd out = take 15 (rev (remdups (rev (map snd stream)))) \<and>
       (\<forall>x \<in> set out. find (\<lambda>y. snd y = snd x) stream = Some x)"
    using capped_dedup [OF ot] other_entity_scan_prefix [of "key_point_scan ?lines" "ents d"]
    unfolding other_results_def Let_def by blast
  from 1 2 3 4 5 show ?thesis
    unfolding t_def [symmetric] d_def [symmetric] Let_def by blast
qed

theorem categories_dedup_order_cap_witness:
  "\<exists>r. analyze_document no_entities (replicate 100 CHR ''a'') = Inr r \<and>
       distinct (case_info r) \<and> length (case_info r) \<le> 15 \<and>
       distinct (map snd (tax_amounts r)) \<and> length (tax_amounts r) \<le> 20 \<and>
       distinct (map snd (dates r)) \<and> length (dates r) \<le> 20 \<and>
       distinct (map snd (legal_refs r)) \<and> length (legal_refs r) \<le> 25 \<and>
       distinct (map snd (other r)) \<and> length (other r) \<le> 15"
proof -
  let ?T = "replicate 100 CHR ''a''"
  have "\<not> (?T = [] \<or> length (strip ?T) < 100)"
    by (simp add: strip_replicate not_isspace_a)
  then obtain r where r: "analyze_document no_entities ?T = Inr r"
    by (simp add: analyze_document_def Let_def)
  from categories_dedup_order_cap [OF r]
  have "distinct (case_info r) \<and> length (case_info r) \<le> 15 \<and>
        distinct (map snd (tax_amounts r)) \<and> length (tax_amounts r) \<le> 20 \<and>
        distinct (map snd (dates r)) \<and> length (dates r) \<le> 20 \<and>
        distinct (map snd (legal_refs r)) \<and> length (legal_refs r) \<le> 25 \<and>
        distinct (map snd (other r)) \<and> length (other r) \<le> 15"
    unfolding Let_def by blast
  with r show ?thesis by blast
qed

section \<open>The gate of the entity loop\<close>

lemmas re_ev = chr_eq_def in_range_def re_match_def Plus_def str_def sp_def dg_def

lemma key_point_example_facts:
  "strip key_point_example = key_point_example"
  "length key_point_example = 26"
  "re_match False key_point_pattern key_point_example"
  "CHR 0x0A \<notin> set key_point_example"
  unfolding key_point_example_def
  by (simp_all add: key_point_pattern_def strip_def char_ev re_ev)

lemma key_point_line_example:
  "key_point_line key_point_example = [(''Key Point'', key_point_example)]"
  by (simp add: key_point_line_def key_point_example_facts)

lemma key_point_line_empty: "key_point_line [] = []"
  by (simp add: key_point_line_def strip_def)

lemma split_repeated:
  "sep \<notin> set l \<Longrightarrow> split sep (concat (replicate n (l @ [sep]))) = replicate n l @ [[]]"
  by (induction n) (simp_all add: split_append_sep)

lemma concat_replicate_single: "concat (replicate n [x]) = replicate n x"
  by (induction n) simp_all

lemma key_point_scan_thirty:
  "key_point_scan (split CHR 0x0A thirty_key_points) =
   replicate 30 (''Key Point'', key_point_example)"
proof -
  have "CHR 0x0A \<notin> set key_point_example" by (rule key_point_example_facts)
  then have "split CHR 0x0A thirty_key_points = replicate 30 key_point_example @ [[]]"
    unfolding thirty_key_points_def by (rule split_repeated)
  then show ?thesis
    by (simp add: key_point_scan_def key_point_line_example key_point_line_empty
                  map_replicate concat_replicate_single)
qed

lemma dedup_replicate:
  "dedup key seen (replicate n x) = (if n = 0 \<or> key x \<in> seen then [] else [x])"
proof (induction n arbitrary: seen)
  case 0
  then show ?case by simp
next
  case (Suc n)
  then show ?case by simp
qed

text \<open>
  C4, as stated, fails: after thirty Key Point lines the entity loop adds nothing,
  though it has added no item itself; a gate on the entity items would add the person.
\<close>

theorem entity_gate_counterexample:
  "other_results thirty_key_points one_person =
     replicate 30 (''Key Point'', key_point_example) \<and>
   other_entity_scan_claimed (ents one_person) 0 (key_point_scan (split CHR 0x0A thirty_key_points)) =
     replicate 30 (''Key Point'', key_point_example) @ [(''Person'', ''Ann Lee'')] \<and>
   extract_other_details thirty_key_points one_person = [(''Key Point'', key_point_example)]"
proof -
  have 1: "other_results thirty_key_points one_person =
           replicate 30 (''Key Point'', key_point_example)"
    by (simp add: other_results_def key_point_scan_thirty one_person_def)
  have 2: "other_entity_scan_claimed (ents one_person) 0
             (key_point_scan (split CHR 0x0A thirty_key_points)) =
           replicate 30 (''Key Point'', key_point_example) @ [(''Person'', ''Ann Lee'')]"
    by (simp add: key_point_scan_thirty one_person_def)
  have 3: "extract_other_details thirty_key_points one_person =
           [(''Key Point'', key_point_example)]"
    by (simp add: extract_other_details_def 1 dedup_replicate)
  from 1 2 3 show ?thesis by blast
qed

text \<open>
  C4, amended: the gate reads the length of the whole list \<open>results\<close>, Key Point
  items included. The entity loop appends the qualifying entities (a PERSON, or an ORG
  without \<open>court\<close> in its lowered text) in order, until \<open>results\<close> holds 30 items:
  with \<open>k\<close> Key Point items it appends the first \<open>30 - k\<close> of them.
\<close>

theorem entity_gate_counts_all_results:
  "other_results text d =
   key_point_scan (split CHR 0x0A text) @
   take (30 - length (key_point_scan (split CHR 0x0A text)))
     (concat (map (\<lambda>ent. if ent_label ent = ''PERSON'' then [(''Person'', ent_text ent)]
                         else if ent_label ent = ''ORG'' \<and> \<not> str_in ''court'' (lower (ent_text ent))
                           then [(''Organization'', ent_text ent)]
                         else []) (ents d)))"
  unfolding other_results_def by (rule other_entity_scan_eq)

section \<open>The line scan of extract_tax_amounts\<close>

lemma tax_line_emit:
  "10 \<le> length (strip line) \<Longrightarrow> length (strip line) \<le> 200 \<Longrightarrow>
   kw \<in> set tax_keywords \<Longrightarrow> str_in kw (lower line) \<Longrightarrow>
   pattern \<in> set money_patterns \<Longrightarrow> re_search True pattern line \<Longrightarrow>
   tax_line line = [(tax_heading (lower line), strip line)]"
  by (auto simp: tax_line_def Let_def)

lemma tax_line_short: "length (strip line) < 10 \<Longrightarrow> tax_line line = []"
  by (simp add: tax_line_def Let_def)

lemma tax_line_long: "length (strip line) > 200 \<Longrightarrow> tax_line line = []"
  by (simp add: tax_line_def Let_def)

lemma money_pattern_0: "money_patterns ! 0 \<in> set money_patterns"
  by (simp add: money_patterns_def)

lemma penalty_line_facts:
  "strip penalty_line = penalty_line"
  "length penalty_line = 43"
  "lower penalty_line = ''penalty assessed: $1,250.00 due immediately''"
  "re_search True (money_patterns ! 0) penalty_line"
  unfolding penalty_line_def
  by (simp_all add: strip_def lower_def money_patterns_def char_ev re_ev)

lemma penalty_line_heading: "tax_heading (lower penalty_line) = ''Penalty''"
  unfolding penalty_line_facts by (simp add: tax_heading_def)

lemma tax_line_penalty_line: "tax_line penalty_line = [(''Penalty'', penalty_line)]"
proof -
  have kw: "''penalty'' \<in> set tax_keywords" by (simp add: tax_keywords_def)
  have i: "str_in ''penalty'' (lower penalty_line)"
    unfolding penalty_line_facts by simp
  have "tax_line penalty_line = [(tax_heading (lower penalty_line), strip penalty_line)]"
    by (rule tax_line_emit [OF _ _ kw i money_pattern_0 penalty_line_facts(4)])
       (simp_all add: penalty_line_facts)
  then show ?thesis by (simp only: penalty_line_heading penalty_line_facts(1))
qed

lemma ten_char_line_facts:
  "strip ten_char_line = ten_char_line"
  "length ten_char_line = 10"
  "lower ten_char_line = ''tax $12345''"
  "re_search True (money_patterns ! 0) ten_char_line"
  unfolding ten_char_line_def
  by (simp_all add: strip_def lower_def money_patterns_def char_ev re_ev)

lemma ten_char_line_heading: "tax_heading (lower ten_char_line) = ''Amount''"
  unfolding ten_char_line_facts by (simp add: tax_heading_def)

text \<open>
  C5, as stated, fails at the ends of the window: the source skips a line when its
  stripped length is below 10 or above 200, so a line of exactly 10 characters with a
  tax keyword and an amount is emitted.
\<close>

theorem tax_line_length_counterexample:
  "length (strip ten_char_line) = 10 \<and> tax_line ten_char_line = [(''Amount'', ten_char_line)]"
proof -
  have kw: "''tax'' \<in> set tax_keywords" by (simp add: tax_keywords_def)
  have i: "str_in ''tax'' (lower ten_char_line)"
    unfolding ten_char_line_facts by simp
  have "tax_line ten_char_line = [(tax_heading (lower ten_char_line), strip ten_char_line)]"
    by (rule tax_line_emit [OF _ _ kw i money_pattern_0 ten_char_line_facts(4)])
       (simp_all add: ten_char_line_facts)
  then show ?thesis by (simp only: ten_char_line_heading ten_char_line_facts(1,2))
qed

text \<open>
  C5, amended: a line is emitted exactly when its stripped length is from 10 to 200,
  both included, its lowered text contains a tax keyword and a money pattern is found
  in it; the heading is that of the first group of the priority list with a keyword in
  the lowered line, else \<open>Amount\<close>, and the content is the stripped line. The line
  of the scenario yields its \<open>Penalty\<close> item, and no line of stripped length below
  10 is emitted.
\<close>

theorem tax_line_emits:
  "tax_line line =
     (if 10 \<le> length (strip line) \<and> length (strip line) \<le> 200 \<and>
         (\<exists>kw \<in> set [''tax'', ''penalty'', ''interest'', ''assessment'', ''liability'',
                       ''payment'', ''amount due'', ''balance'', ''deficiency'', ''refund''].
            str_in kw (lower line)) \<and>
         (\<exists>pattern \<in> set money_patterns. re_search True pattern line)
      then [(case find (\<lambda>(kws, heading). \<exists>kw \<in> set kws. str_in kw (lower line))
                    [([''penalty'', ''penalties''], ''Penalty''),
                     ([''interest''], ''Interest''),
                     ([''unpaid'', ''owed'', ''due''], ''Amount Due''),
                     ([''refund''], ''Refund''),
                     ([''assessment''], ''Assessment''),
                     ([''payment''], ''Payment''),
                     ([''liability''], ''Liability''),
                     ([''deficiency''], ''Deficiency'')] of
               Some (kws, heading) \<Rightarrow> heading
             | None \<Rightarrow> ''Amount'',
             strip line)]
      else []) \<and>
   set (tax_line_scan lines) = (\<Union>l \<in> set lines. set (tax_line l)) \<and>
   tax_line ''Penalty assessed: $1,250.00 due immediately'' =
     [(''Penalty'', ''Penalty assessed: $1,250.00 due immediately'')] \<and>
   (length (strip line) < 10 \<longrightarrow> tax_line line = [])"
proof -
  have 1: "tax_line line =
     (if 10 \<le> length (strip line) \<and> length (strip line) \<le> 200 \<and>
         (\<exists>kw \<in> set [''tax'', ''penalty'', ''interest'', ''assessment'', ''liability'',
                       ''payment'', ''amount due'', ''balance'', ''deficiency'', ''refund''].
            str_in kw (lower line)) \<and>
         (\<exists>pattern \<in> set money_patterns. re_search True pattern line)
      then [(case find (\<lambda>(kws, heading). \<exists>kw \<in> set kws. str_in kw (lower line))
                    [([''penalty'', ''penalties''], ''Penalty''),
                     ([''interest''], ''Interest''),
                     ([''unpaid'', ''owed'', ''due''], ''Amount Due''),
                     ([''refund''], ''Refund''),
                     ([''assessment''], ''Assessment''),
                     ([''payment''], ''Payment''),
                     ([''liability''], ''Liability''),
                     ([''deficiency''], ''Deficiency'')] of
               Some (kws, heading) \<Rightarrow> heading
             | None \<Rightarrow> ''Amount'',
             strip line)]
      else [])"
    unfolding tax_line_def tax_heading_def tax_keywords_def Let_def
    by (simp add: not_less not_le)
  have 2: "set (tax_line_scan lines) = (\<Union>l \<in> set lines. set (tax_line l))"
    by (simp add: tax_line_scan_def)
  note 3 = tax_line_penalty_line [unfolded penalty_line_def]
  from 1 2 3 tax_line_short show ?thesis by blast
qed

theorem tax_line_emits_witness:
  "length (strip ''tax $5'') < 10 \<and> tax_line ''tax $5'' = []"
  using tax_line_emits [of "''tax $5''"]
  by (simp add: strip_def char_ev)

section \<open>Texts made of a line and the padding\<close>

lemma strip_no_outer_space:
  assumes "s \<noteq> []" "\<not> isspace (hd s)" "\<not> isspace (last s)"
  shows "strip s = s"
proof -
  have 1: "dropWhile isspace s = s" using assms(1,2) by (cases s) auto
  obtain ys y where s: "s = ys @ [y]" using assms(1) by (cases s rule: rev_cases) auto
  then have "\<not> isspace y" using assms(3) by simp
  then have "dropWhile isspace (rev s) = rev s" by (simp add: s)
  with 1 show ?thesis by (simp add: strip_def)
qed

lemma analyze_document_short:
  "text \<noteq> [] \<Longrightarrow> 100 \<le> length (strip text) \<Longrightarrow> length text \<le> 1000000 \<Longrightarrow>
   analyze_document nlp text =
     Inr \<lparr>case_info = extract_case_info text (nlp text),
          tax_amounts = extract_tax_amounts text (nlp text),
          dates = extract_dates text (nlp text),
          legal_refs = extract_legal_references text,
          other = extract_other_details text (nlp text)\<rparr>"
  by (simp add: analyze_document_def Let_def del: One_nat_def)

lemma padding_facts:
  "length padding = 201" "strip padding = padding" "CHR 0x0A \<notin> set padding"
  "padding \<noteq> []" "last padding = CHR ''x''"
  unfolding padding_def by (simp_all add: strip_replicate char_ev)

lemma padded_text:
  assumes "l \<noteq> []" "\<not> isspace (hd l)" "CHR 0x0A \<notin> set l" "length l \<le> 1000"
  shows "l @ CHR 0x0A # padding \<noteq> []"
        "100 \<le> length (strip (l @ CHR 0x0A # padding))"
        "length (l @ CHR 0x0A # padding) \<le> 1000000"
        "split CHR 0x0A (l @ CHR 0x0A # padding) = [l, padding]"
proof -
  let ?t = "l @ CHR 0x0A # padding"
  show "?t \<noteq> []" by simp
  have "hd ?t = hd l" "last ?t = CHR ''x''" using assms(1) by (simp_all add: padding_facts)
  then have "strip ?t = ?t"
    using assms(2) by (intro strip_no_outer_space) (simp_all add: char_ev)
  then show "100 \<le> length (strip ?t)" by (simp add: padding_facts)
  show "length ?t \<le> 1000000" using assms(4) by (simp add: padding_facts)
  show "split CHR 0x0A ?t = [l, padding]"
    by (simp add: split_append_sep [OF assms(3)] split_no_sep padding_facts)
qed

section \<open>Tax keywords inside words\<close>

lemma tax_line_padding: "tax_line padding = []"
  by (rule tax_line_long) (simp add: padding_facts)

lemma syntax_line_facts:
  "strip syntax_line = syntax_line"
  "length syntax_line = 33"
  "lower syntax_line = ''the syntax fee is $50.00 in total''"
  "re_search True (money_patterns ! 0) syntax_line"
  "syntax_line \<noteq> []" "\<not> isspace (hd syntax_line)" "CHR 0x0A \<notin> set syntax_line"
  unfolding syntax_line_def
  by (simp_all add: strip_def lower_def money_patterns_def char_ev re_ev)

lemma syntax_line_heading: "tax_heading (lower syntax_line) = ''Amount''"
  unfolding syntax_line_facts by (simp add: tax_heading_def)

lemma syntax_line_words:
  "str_in ''syntax'' (lower syntax_line)"
  "\<not> str_in '' tax'' (lower syntax_line)"
  "\<forall>kw \<in> set (tl tax_keywords). \<not> str_in kw (lower syntax_line)"
  unfolding syntax_line_facts by (simp_all add: tax_keywords_def)

lemma tax_line_syntax_line: "tax_line syntax_line = [(''Amount'', syntax_line)]"
proof -
  have kw: "''tax'' \<in> set tax_keywords" by (simp add: tax_keywords_def)
  have i: "str_in ''tax'' (lower syntax_line)"
    unfolding syntax_line_facts by simp
  have "tax_line syntax_line = [(tax_heading (lower syntax_line), strip syntax_line)]"
    by (rule tax_line_emit [OF _ _ kw i money_pattern_0 syntax_line_facts(4)])
       (simp_all add: syntax_line_facts)
  then show ?thesis by (simp only: syntax_line_heading syntax_line_facts(1))
qed

lemma tax_line_emits_iff:
  "tax_line line \<noteq> [] \<longleftrightarrow>
     10 \<le> length (strip line) \<and> length (strip line) \<le> 200 \<and>
     (\<exists>kw \<in> set tax_keywords. \<exists>a b. lower line = a @ kw @ b) \<and>
     (\<exists>pattern \<in> set money_patterns. re_search True pattern line)"
proof -
  have "str_in kw (lower line) \<longleftrightarrow> (\<exists>a b. lower line = a @ kw @ b)" for kw
    by (simp only: str_in_sublist sublist_def)
  then show ?thesis
    by (simp only: tax_line_def Let_def) (auto simp: not_less not_le)
qed

lemma tax_line_no_keyword:
  "\<forall>kw \<in> set tax_keywords. \<not> str_in kw (lower line) \<Longrightarrow> tax_line line = []"
  by (auto simp: tax_line_def Let_def)

lemma sync_line_facts:
  "strip sync_line = sync_line"
  "length sync_line = 31"
  "lower sync_line = ''the sync fee is $50.00 in total''"
  "re_search True (money_patterns ! 0) sync_line"
  "sync_line \<noteq> []" "\<not> isspace (hd sync_line)" "CHR 0x0A \<notin> set sync_line"
  unfolding sync_line_def
  by (simp_all add: strip_def lower_def money_patterns_def char_ev re_ev)

lemma sync_line_words:
  "\<forall>kw \<in> set tax_keywords. \<not> str_in kw (lower sync_line)"
  unfolding sync_line_facts by (simp_all add: tax_keywords_def)

lemma tax_line_sync_line: "tax_line sync_line = []"
  by (rule tax_line_no_keyword) (rule sync_line_words)

lemma syntax_line_split:
  "lower syntax_line = ''the syn'' @ ''tax'' @ '' fee is $50.00 in total''"
  unfolding syntax_line_facts by simp

text \<open>
  C10: a line is emitted exactly when its stripped length is from 10 to 200, some tax
  keyword occurs in the lowered line as a run of consecutive characters, whatever
  stands around it, and a money pattern is found in the line. The text
  \<open>syntax_text\<close> passes the check, and whatever the recognizer reads, its line
  \<open>The syntax fee is $50.00 in total\<close> is in tax_amounts with the heading
  \<open>Amount\<close>: the lowered line contains \<open>tax\<close> only inside \<open>syntax\<close>, and
  none of the other tax keywords. The same line with \<open>sync\<close> for \<open>syntax\<close> has
  the length and the money pattern but no keyword, and is not emitted.
\<close>

theorem tax_keyword_is_substring:
  "(tax_line line \<noteq> [] \<longleftrightarrow>
      10 \<le> length (strip line) \<and> length (strip line) \<le> 200 \<and>
      (\<exists>kw \<in> set tax_keywords. \<exists>a b. lower line = a @ kw @ b) \<and>
      (\<exists>pattern \<in> set money_patterns. re_search True pattern line)) \<and>
   (\<exists>r. analyze_document nlp syntax_text = Inr r \<and>
       (''Amount'', syntax_line) \<in> set (tax_amounts r) \<and>
       syntax_line \<in> set (split CHR 0x0A syntax_text) \<and>
       lower syntax_line = ''the syn'' @ ''tax'' @ '' fee is $50.00 in total'' \<and>
       str_in ''syntax'' (lower syntax_line) \<and> \<not> str_in '' tax'' (lower syntax_line) \<and>
       (\<forall>kw \<in> set (tl tax_keywords). \<not> str_in kw (lower syntax_line))) \<and>
   (\<exists>r. analyze_document no_entities sync_text = Inr r \<and>
       sync_line \<in> set (split CHR 0x0A sync_text) \<and>
       10 \<le> length (strip sync_line) \<and> length (strip sync_line) \<le> 200 \<and>
       re_search True (money_patterns ! 0) sync_line \<and>
       tax_line sync_line = [] \<and> tax_amounts r = [])"
proof -
  have l: "length syntax_line \<le> 1000" by (simp add: syntax_line_facts)
  note t = padded_text [OF syntax_line_facts(5,6,7) l, folded syntax_text_def]
  have "tax_line_scan (split CHR 0x0A syntax_text) = [(''Amount'', syntax_line)]"
    by (simp add: t tax_line_scan_def tax_line_syntax_line tax_line_padding)
  then have "(''Amount'', syntax_line) \<in> set (extract_tax_amounts syntax_text (nlp syntax_text))"
    by (simp add: extract_tax_amounts_def tax_amounts_results_def)
  then have 2: "\<exists>r. analyze_document nlp syntax_text = Inr r \<and>
       (''Amount'', syntax_line) \<in> set (tax_amounts r) \<and>
       syntax_line \<in> set (split CHR 0x0A syntax_text) \<and>
       lower syntax_line = ''the syn'' @ ''tax'' @ '' fee is $50.00 in total'' \<and>
       str_in ''syntax'' (lower syntax_line) \<and> \<not> str_in '' tax'' (lower syntax_line) \<and>
       (\<forall>kw \<in> set (tl tax_keywords). \<not> str_in kw (lower syntax_line))"
    using syntax_line_words syntax_line_split
    by (simp add: analyze_document_short [OF t(1,2,3)] t(4))
  have m: "length sync_line \<le> 1000" by (simp add: sync_line_facts)
  note u = padded_text [OF sync_line_facts(5,6,7) m, folded sync_text_def]
  have "tax_line_scan (split CHR 0x0A sync_text) = []"
    by (simp add: u tax_line_scan_def tax_line_sync_line tax_line_padding)
  then have "extract_tax_amounts sync_text (no_entities sync_text) = []"
    by (simp add: extract_tax_amounts_def tax_amounts_results_def money_scan_def
          no_entities_facts)
  then have 3: "\<exists>r. analyze_document no_entities sync_text = Inr r \<and>
       sync_line \<in> set (split CHR 0x0A sync_text) \<and>
       10 \<le> length (strip sync_line) \<and> length (strip sync_line) \<le> 200 \<and>
       re_search True (money_patterns ! 0) sync_line \<and>
       tax_line sync_line = [] \<and> tax_amounts r = []"
    using tax_line_sync_line sync_line_facts(4)
    by (simp add: analyze_document_short [OF u(1,2,3)] u(4) sync_line_facts(1,2))
  from tax_line_emits_iff 2 3 show ?thesis by blast
qed

theorem tax_keyword_is_substring_witness:
  "(\<exists>r. analyze_document no_entities syntax_text = Inr r \<and>
        (''Amount'', syntax_line) \<in> set (tax_amounts r) \<and>
        \<not> str_in ''penalty'' (lower syntax_line)) \<and>
   tax_line syntax_line \<noteq> [] \<and>
   (\<exists>kw \<in> set tax_keywords. \<exists>a b. lower syntax_line = a @ kw @ b) \<and>
   tax_line sync_line = [] \<and>
   \<not> (\<exists>kw \<in> set tax_keywords. \<exists>a b. lower sync_line = a @ kw @ b)"
proof -
  have 1: "\<exists>r. analyze_document no_entities syntax_text = Inr r \<and>
        (''Amount'', syntax_line) \<in> set (tax_amounts r) \<and>
        \<not> str_in ''penalty'' (lower syntax_line)"
    using tax_keyword_is_substring [of syntax_line no_entities]
    by (auto simp: tax_keywords_def)
  have a: "tax_line syntax_line \<noteq> []" by (simp add: tax_line_syntax_line)
  with tax_keyword_is_substring [of syntax_line no_entities]
  have 2: "\<exists>kw \<in> set tax_keywords. \<exists>a b. lower syntax_line = a @ kw @ b" by blast
  have w: "10 \<le> length (strip sync_line)" "length (strip sync_line) \<le> 200"
    by (simp_all add: sync_line_facts)
  have p: "\<exists>pattern \<in> set money_patterns. re_search True pattern sync_line"
    using money_pattern_0 sync_line_facts(4) by blast
  from tax_keyword_is_substring [of sync_line no_entities] tax_line_sync_line w p
  have 3: "\<not> (\<exists>kw \<in> set tax_keywords. \<exists>a b. lower sync_line = a @ kw @ b)" by blast
  from 1 a 2 tax_line_sync_line 3 show ?thesis by blast
qed


section \<open>The scans of extract_case_info\<close>

lemma finditer_skip:
  "match_group ic pre grp (x # s) = None \<Longrightarrow>
   finditer ic pre grp (x # s) = finditer ic pre grp s"
  by (subst finditer.simps) simp

lemma finditer_Nil:
  "match_group ic pre grp [] = None \<Longrightarrow> finditer ic pre grp [] = []"
  by (subst finditer.simps) simp

lemma case_pattern_first:
  assumes "(pre, grp) \<in> set case_patterns"
      and "lower_char x \<noteq> CHR ''c''" "lower_char x \<noteq> CHR ''d''"
  shows "match_group True pre grp (x # s) = None"
  using assms
  by (auto simp: case_patterns_def case_no_pattern_def docket_no_pattern_def
        case_number_pattern_def match_group_def str_def chr_eq_def char_ev)

lemma case_pattern_Nil:
  assumes "(pre, grp) \<in> set case_patterns"
  shows "match_group True pre grp [] = None"
  using assms
  by (auto simp: case_patterns_def case_no_pattern_def docket_no_pattern_def
        case_number_pattern_def match_group_def str_def)

lemma finditer_no_cd:
  assumes "(pre, grp) \<in> set case_patterns"
      and "\<forall>x \<in> set s. lower_char x \<noteq> CHR ''c'' \<and> lower_char x \<noteq> CHR ''d''"
  shows "finditer True pre grp s = []"
  using assms(2)
proof (induction s)
  case Nil
  then show ?case by (simp only: finditer_Nil [OF case_pattern_Nil [OF assms(1)]])
next
  case (Cons x s)
  then have "match_group True pre grp (x # s) = None"
    by (intro case_pattern_first [OF assms(1)]) simp_all
  then show ?case using Cons by (simp only: finditer_skip) simp
qed

lemma case_number_scan_no_cd:
  "\<forall>x \<in> set text. lower_char x \<noteq> CHR ''c'' \<and> lower_char x \<noteq> CHR ''d'' \<Longrightarrow>
   case_number_scan text = []"
  unfolding case_number_scan_def
  by (auto simp: finditer_no_cd simp del: finditer.simps)

lemma plaintiff_line_facts:
  "strip plaintiff_line = plaintiff_line"
  "length plaintiff_line = 10"
  "lower plaintiff_line = ''plaintiff:''"
  "CHR '':'' \<in> set plaintiff_line"
  "split1 CHR '':'' plaintiff_line = [''Plaintiff'', []]"
  "plaintiff_line \<noteq> []" "\<not> isspace (hd plaintiff_line)" "CHR 0x0A \<notin> set plaintiff_line"
  "\<forall>x \<in> set plaintiff_line. lower_char x \<noteq> CHR ''c'' \<and> lower_char x \<noteq> CHR ''d''"
  unfolding plaintiff_line_def
  by (simp_all add: strip_def lower_def split1_def char_ev)

lemma strip_Nil: "strip [] = []"
  by (simp add: strip_def)

lemma party_line_plaintiff_line: "party_line plaintiff_line = [(''Plaintiff'', [])]"
proof -
  have "str_in ''plaintiff'' (lower plaintiff_line)"
    unfolding plaintiff_line_facts by simp
  moreover have "party_content plaintiff_line = []"
    by (simp add: party_content_def plaintiff_line_facts strip_Nil)
  ultimately show ?thesis
    by (simp add: party_line_def plaintiff_line_facts(1,2))
qed

lemma party_line_padding: "party_line padding = []"
  by (simp add: party_line_def padding_facts)

lemma padding_no_cd:
  "\<forall>x \<in> set padding. lower_char x \<noteq> CHR ''c'' \<and> lower_char x \<noteq> CHR ''d''"
  by (simp add: padding_def char_ev)

text \<open>
  C9: the text \<open>plaintiff_text\<close> passes the check, its first line is \<open>Plaintiff:\<close>
  (10 characters, so between 5 and 100), and whatever the recognizer reads, case_info
  contains the item with heading \<open>Plaintiff\<close> and empty content: nothing follows the
  colon.
\<close>

theorem party_content_can_be_empty:
  "\<exists>r. analyze_document nlp plaintiff_text = Inr r \<and>
       (''Plaintiff'', []) \<in> set (case_info r) \<and>
       plaintiff_line \<in> set (take 50 (split CHR 0x0A plaintiff_text)) \<and>
       strip plaintiff_line = ''Plaintiff:'' \<and>
       5 < length (strip plaintiff_line) \<and> length (strip plaintiff_line) < 100"
proof -
  have l: "length plaintiff_line \<le> 1000" by (simp add: plaintiff_line_facts)
  note t = padded_text [OF plaintiff_line_facts(6,7,8) l, folded plaintiff_text_def]
  have "\<forall>x \<in> set plaintiff_text. lower_char x \<noteq> CHR ''c'' \<and> lower_char x \<noteq> CHR ''d''"
    using plaintiff_line_facts(9) padding_no_cd
    by (auto simp: plaintiff_text_def char_ev)
  then have 1: "case_number_scan plaintiff_text = []" by (rule case_number_scan_no_cd)
  have 2: "party_scan (split CHR 0x0A plaintiff_text) = [(''Plaintiff'', [])]"
    by (simp add: t party_scan_def party_line_plaintiff_line party_line_padding)
  have "(''Plaintiff'', []) \<in> set (extract_case_info plaintiff_text (nlp plaintiff_text))"
    by (simp add: extract_case_info_def case_info_results_def 1 2)
  moreover have "strip plaintiff_line = ''Plaintiff:''"
    by (simp add: plaintiff_line_facts(1)) (simp add: plaintiff_line_def)
  ultimately show ?thesis
    by (simp add: analyze_document_short [OF t(1,2,3)] t(4) plaintiff_line_facts(2))
qed

section \<open>Items of the first pass and the cap\<close>





lemma analyze_document_fields:
  assumes "analyze_document nlp text = Inr r"
  shows "case_info r = extract_case_info (take 1000000 text) (nlp (take 1000000 text))"
        "tax_amounts r = extract_tax_amounts (take 1000000 text) (nlp (take 1000000 text))"
        "dates r = extract_dates (take 1000000 text) (nlp (take 1000000 text))"
        "legal_refs r = extract_legal_references (take 1000000 text)"
        "other r = extract_other_details (take 1000000 text) (nlp (take 1000000 text))"
  using assms
  by (auto simp: analyze_document_def Let_def truncated_text split: if_splits
           simp del: One_nat_def)

section \<open>The line scan of extract_dates\<close>

lemma date_line_cases:
  "date_line line = [] \<or> date_line line = [(date_heading (lower line), strip line)]"
  by (simp add: date_line_def Let_def)

lemma date_line_emit:
  "10 \<le> length (strip line) \<Longrightarrow> length (strip line) \<le> 200 \<Longrightarrow>
   kw \<in> set date_keywords \<Longrightarrow> str_in kw (lower line) \<Longrightarrow>
   pattern \<in> set date_patterns \<Longrightarrow> re_search True pattern line \<Longrightarrow>
   date_line line = [(date_heading (lower line), strip line)]"
  by (auto simp: date_line_def Let_def)

lemma date_line_long: "length (strip line) > 200 \<Longrightarrow> date_line line = []"
  by (simp add: date_line_def Let_def)

lemma date_heading_deadline: "str_in ''deadline'' ll \<Longrightarrow> date_heading ll = ''Deadline''"
  by (simp add: date_heading_def)

lemma rep_ev:
  "rep 1 2 r = Cat r (Opt (Cat r (Star (In []))))"
  "rep 2 4 r = Cat r (Cat r (Opt (Cat r (Opt (Cat r (Star (In [])))))))"
  "rep 4 4 r = Cat r (Cat r (Cat r (Cat r (Star (In [])))))"
  by (simp_all add: eval_nat_numeral)

lemma deadline_line_facts:
  "strip deadline_line = deadline_line"
  "length deadline_line = 27"
  "lower deadline_line = ''filing deadline: 04/15/2024''"
  "re_search True (date_patterns ! 0) deadline_line"
  "deadline_line \<noteq> []" "\<not> isspace (last deadline_line)"
  "CHR 0x0A \<notin> set deadline_line" "\<not> isspace (hd deadline_line)"
  unfolding deadline_line_def
  by (simp_all add: strip_def lower_def date_patterns_def char_ev re_ev rep_ev)

lemma deadline_in_line: "str_in ''deadline'' (lower deadline_line)"
  unfolding deadline_line_facts by simp

lemma date_line_deadline_line: "date_line deadline_line = [(''Deadline'', deadline_line)]"
proof -
  have kw: "''deadline'' \<in> set date_keywords" by (simp add: date_keywords_def)
  have p: "date_patterns ! 0 \<in> set date_patterns" by (simp add: date_patterns_def)
  have "date_line deadline_line = [(date_heading (lower deadline_line), strip deadline_line)]"
    by (rule date_line_emit [OF _ _ kw deadline_in_line p deadline_line_facts(4)])
       (simp_all add: deadline_line_facts)
  then show ?thesis
    by (simp only: date_heading_deadline [OF deadline_in_line] deadline_line_facts(1))
qed

lemma date_scan_item_of_content:
  assumes "z \<in> set (date_line_scan lines)" "snd z = deadline_line"
  shows "z = (''Deadline'', deadline_line)"
proof -
  from assms(1) obtain l where l: "l \<in> set lines" "z \<in> set (date_line l)"
    by (auto simp: date_line_scan_def)
  with date_line_cases [of l] have z: "z = (date_heading (lower l), strip l)" by auto
  with assms(2) have s: "strip l = deadline_line" by simp
  then have "str_in ''deadline'' (lower (strip l))" by (simp only: deadline_in_line)
  then have "str_in ''deadline'' (lower l)" by (rule str_in_lower_strip)
  then show ?thesis using z s by (simp only: date_heading_deadline)
qed

section \<open>A line beyond the first 1,000,000 characters\<close>

lemma long_line_facts:
  "length (strip (replicate 1000000 CHR ''a'')) = 1000000"
  "split CHR 0x0A (replicate 1000000 CHR ''a'') = [replicate 1000000 CHR ''a'']"
  "case_number_scan (replicate 1000000 CHR ''a'') = []"
  by (simp_all add: strip_replicate not_isspace_a split_no_sep case_number_scan_no_cd char_ev)

lemma long_line_nothing:
  "extract_case_info (replicate 1000000 CHR ''a'') (no_entities t) = []"
  "extract_tax_amounts (replicate 1000000 CHR ''a'') (no_entities t) = []"
  "extract_dates (replicate 1000000 CHR ''a'') (no_entities t) = []"
  "extract_legal_references (replicate 1000000 CHR ''a'') = []"
  "extract_other_details (replicate 1000000 CHR ''a'') (no_entities t) = []"
  by (simp_all add: extract_case_info_def case_info_results_def party_scan_def party_line_def
        court_scan_def extract_tax_amounts_def tax_amounts_results_def tax_line_scan_def
        tax_line_def money_scan_def extract_dates_def dates_results_def date_line_scan_def
        date_line_def date_scan_def extract_legal_references_def legal_results_def
        legal_line_def extract_other_details_def other_results_def key_point_scan_def
        key_point_line_def long_line_facts no_entities_facts Let_def)

lemma late_line_text:
  assumes "l \<noteq> []" "\<not> isspace (last l)" "CHR 0x0A \<notin> set l"
  shows "l \<in> set (split CHR 0x0A (replicate 1000000 CHR ''a'' @ CHR 0x0A # l))"
    and "\<not> (replicate 1000000 CHR ''a'' @ CHR 0x0A # l = [] \<or>
            length (strip (replicate 1000000 CHR ''a'' @ CHR 0x0A # l)) < 100)"
    and "analyze_document no_entities (replicate 1000000 CHR ''a'' @ CHR 0x0A # l) =
           Inr \<lparr>case_info = [], tax_amounts = [], dates = [], legal_refs = [], other = []\<rparr>"
proof -
  let ?A = "replicate 1000000 CHR ''a''"
  let ?T = "?A @ CHR 0x0A # l"
  have "split CHR 0x0A ?T = ?A # split CHR 0x0A l"
    by (rule split_append_sep) (simp add: char_ev)
  then show "l \<in> set (split CHR 0x0A ?T)"
    by (simp add: split_no_sep [OF assms(3)])
  have "hd ?T = CHR ''a''" "last ?T = last l" using assms(1) by simp_all
  then have st: "strip ?T = ?T"
    using assms(2) by (intro strip_no_outer_space) (simp_all add: char_ev)
  show v: "\<not> (?T = [] \<or> length (strip ?T) < 100)" by (simp add: st)
  have tk: "take 1000000 ?T = ?A" by simp
  have len: "length ?T > 1000000" by simp
  show "analyze_document no_entities ?T =
          Inr \<lparr>case_info = [], tax_amounts = [], dates = [], legal_refs = [], other = []\<rparr>"
    using v len
    by (simp only: analyze_document_def Let_def if_False if_True tk long_line_nothing)
qed

section \<open>The deadline scenario\<close>

text \<open>
  C6, as stated, fails for some valid inputs that contain the line: when the line stands
  after the first 1,000,000 characters, the text is cut before it and dates is empty.
  (The cap of 20 is a second way to lose the line, shown after the scenario.)
\<close>

theorem late_deadline_counterexample:
  "deadline_line \<in> set (split CHR 0x0A late_deadline_text) \<and>
   \<not> (late_deadline_text = [] \<or> length (strip late_deadline_text) < 100) \<and>
   analyze_document no_entities late_deadline_text =
     Inr \<lparr>case_info = [], tax_amounts = [], dates = [], legal_refs = [], other = []\<rparr>"
  unfolding late_deadline_text_def
  using late_line_text [OF deadline_line_facts(5,6,7)] by blast

lemma date_line_scan_split:
  "date_line_scan (pre @ deadline_line # post) =
   date_line_scan pre @ (''Deadline'', deadline_line) # date_line_scan post"
  by (simp add: date_line_scan_def date_line_deadline_line)

text \<open>
  C6, amended: an emitted line has the heading of the first group of the priority list
  with a keyword in the lowered line, else \<open>Date\<close>, and the stripped line as content.
  For a valid input with the line \<open>Filing deadline: 04/15/2024\<close> among the lines of its
  first 1,000,000 characters, after the lines \<open>pre\<close>, dates contains the item with
  heading \<open>Deadline\<close> whenever the lines before it give fewer than 20 distinct
  contents; and when none of them gives the content of the line, the item is in dates
  only then.
\<close>

theorem deadline_takes_priority:
  "(date_line line = [] \<or>
    date_line line =
      [(case find (\<lambda>(kws, heading). \<exists>kw \<in> set kws. str_in kw (lower line))
               [([''deadline''], ''Deadline''),
                ([''due date'', ''filing date''], ''Filing Date''),
                ([''hearing''], ''Hearing Date''),
                ([''trial''], ''Trial Date''),
                ([''effective''], ''Effective Date''),
                ([''tax year'', ''taxable year''], ''Tax Year'')] of
          Some (kws, heading) \<Rightarrow> heading
        | None \<Rightarrow> ''Date'',
        strip line)]) \<and>
   (analyze_document nlp text = Inr r \<longrightarrow>
    split CHR 0x0A (take 1000000 text) = pre @ ''Filing deadline: 04/15/2024'' # post \<longrightarrow>
    (length (remdups (map snd (date_line_scan pre))) < 20 \<longrightarrow>
     (''Deadline'', ''Filing deadline: 04/15/2024'') \<in> set (dates r)) \<and>
    (''Filing deadline: 04/15/2024'' \<notin> set (map snd (date_line_scan pre)) \<longrightarrow>
     (''Deadline'', ''Filing deadline: 04/15/2024'') \<in> set (dates r) \<longrightarrow>
     length (remdups (map snd (date_line_scan pre))) < 20))"
proof -
  have h: "date_heading (lower line) =
      (case find (\<lambda>(kws, heading). \<exists>kw \<in> set kws. str_in kw (lower line))
               [([''deadline''], ''Deadline''),
                ([''due date'', ''filing date''], ''Filing Date''),
                ([''hearing''], ''Hearing Date''),
                ([''trial''], ''Trial Date''),
                ([''effective''], ''Effective Date''),
                ([''tax year'', ''taxable year''], ''Tax Year'')] of
          Some (kws, heading) \<Rightarrow> heading
        | None \<Rightarrow> ''Date'')"
    by (simp add: date_heading_def)
  have 1: "date_line line = [] \<or>
    date_line line =
      [(case find (\<lambda>(kws, heading). \<exists>kw \<in> set kws. str_in kw (lower line))
               [([''deadline''], ''Deadline''),
                ([''due date'', ''filing date''], ''Filing Date''),
                ([''hearing''], ''Hearing Date''),
                ([''trial''], ''Trial Date''),
                ([''effective''], ''Effective Date''),
                ([''tax year'', ''taxable year''], ''Tax Year'')] of
          Some (kws, heading) \<Rightarrow> heading
        | None \<Rightarrow> ''Date'',
        strip line)]"
    using date_line_cases [of line] by (simp only: h)
  have 2: "(length (remdups (map snd (date_line_scan pre))) < 20 \<longrightarrow>
            (''Deadline'', deadline_line) \<in> set (dates r)) \<and>
           (deadline_line \<notin> set (map snd (date_line_scan pre)) \<longrightarrow>
            (''Deadline'', deadline_line) \<in> set (dates r) \<longrightarrow>
            length (remdups (map snd (date_line_scan pre))) < 20)"
    if r: "analyze_document nlp text = Inr r"
      and l: "split CHR 0x0A (take 1000000 text) = pre @ deadline_line # post"
  proof -
    let ?t = "take 1000000 text"
    let ?A = "date_line_scan pre"
    let ?B = "date_line_scan post @ date_scan (nlp ?t)"
    let ?x = "(''Deadline'', deadline_line)"
    have out: "dates r = take 20 (dedup snd {} (?A @ ?x # ?B))"
      by (simp only: analyze_document_fields(3) [OF r] extract_dates_def dates_results_def l
            date_line_scan_split append_assoc append_Cons)
    have u: "\<forall>z \<in> set ?A. snd z = snd ?x \<longrightarrow> z = ?x"
      using date_scan_item_of_content by simp
    have a: "?x \<in> set (dates r)" if "length (remdups (map snd ?A)) < 20"
      unfolding out using u that by (rule item_kept_before_cap)
    have b: "length (remdups (map snd ?A)) < 20"
      if n: "deadline_line \<notin> set (map snd ?A)" and m: "?x \<in> set (dates r)"
    proof -
      have "snd ?x \<notin> snd ` set ?A" using n by simp
      from dedup_first_occurrence [OF this, of 20 ?B] m show ?thesis
        by (simp only: out)
    qed
    from a b show ?thesis by blast
  qed
  from 1 2 [unfolded deadline_line_def] show ?thesis by blast
qed


lemma date_line_padding: "date_line padding = []"
  by (rule date_line_long) (simp add: padding_facts)


section \<open>The deadline line cut by the cap\<close>

text \<open>
  The cap of 20 is the second way to lose the line of the deadline scenario: after 20 distinct lines with a
  deadline and a date, the line is collected and then cut, in a text of fewer than
  1,000,000 characters.
\<close>

lemma numbered_deadline_facts:
  "numbered_deadline i \<noteq> []"
  "hd (numbered_deadline i) = CHR ''d''"
  "\<not> isspace (last (numbered_deadline i))"
  "length (numbered_deadline i) = 15 + i"
  "CHR 0x0A \<notin> set (numbered_deadline i)"
  "str_in ''deadline'' (lower (numbered_deadline i))"
  by (simp_all add: numbered_deadline_def lower_def char_ev)

lemma numbered_deadline_search:
  "re_search True (date_patterns ! 0) (numbered_deadline i)"
  by (simp add: numbered_deadline_def date_patterns_def char_ev re_ev rep_ev)

lemma numbered_deadline_strip: "strip (numbered_deadline i) = numbered_deadline i"
proof (rule strip_no_outer_space)
  show "numbered_deadline i \<noteq> []" by (rule numbered_deadline_facts(1))
  show "\<not> isspace (hd (numbered_deadline i))"
    by (simp only: numbered_deadline_facts(2)) (simp add: char_ev)
  show "\<not> isspace (last (numbered_deadline i))" by (rule numbered_deadline_facts(3))
qed

lemma numbered_deadline_inj:
  assumes "numbered_deadline i = numbered_deadline j"
  shows "i = j"
proof -
  have "length (numbered_deadline i) = length (numbered_deadline j)"
    by (simp only: assms)
  then show ?thesis by (simp only: numbered_deadline_facts(4))
qed

lemma numbered_deadline_differs: "numbered_deadline i \<noteq> deadline_line"
  by (simp add: numbered_deadline_def deadline_line_def)

lemma date_line_numbered_deadline:
  assumes "i < 20"
  shows "date_line (numbered_deadline i) = [(''Deadline'', numbered_deadline i)]"
proof -
  have kw: "''deadline'' \<in> set date_keywords" by (simp add: date_keywords_def)
  have p: "date_patterns ! 0 \<in> set date_patterns" by (simp add: date_patterns_def)
  have l: "length (strip (numbered_deadline i)) = 15 + i"
    by (simp only: numbered_deadline_strip numbered_deadline_facts(4))
  have l1: "10 \<le> length (strip (numbered_deadline i))" unfolding l by simp
  have l2: "length (strip (numbered_deadline i)) \<le> 200" unfolding l using assms by simp
  have "date_line (numbered_deadline i) =
          [(date_heading (lower (numbered_deadline i)), strip (numbered_deadline i))]"
    by (rule date_line_emit [OF l1 l2 kw numbered_deadline_facts(6) p numbered_deadline_search])
  then show ?thesis
    by (simp only: date_heading_deadline [OF numbered_deadline_facts(6)] numbered_deadline_strip)
qed

lemma date_line_scan_numbered:
  "\<forall>i \<in> set is. i < 20 \<Longrightarrow>
   date_line_scan (map numbered_deadline is @ ls) =
     map (\<lambda>i. (''Deadline'', numbered_deadline i)) is @ date_line_scan ls"
  by (induction "is") (simp_all add: date_line_scan_def date_line_numbered_deadline)

lemma capped_deadline_lines:
  "split CHR 0x0A capped_deadline_text = map numbered_deadline [0..<20] @ [deadline_line]"
  unfolding capped_deadline_text_def
  by (rule split_lines) (simp_all add: numbered_deadline_facts deadline_line_facts)

lemma numbered_lines_length:
  "\<forall>i \<in> set is. i < 20 \<Longrightarrow>
   16 * length is \<le> length (concat (map (\<lambda>l. l @ [CHR 0x0A]) (map numbered_deadline is))) \<and>
   length (concat (map (\<lambda>l. l @ [CHR 0x0A]) (map numbered_deadline is))) \<le> 36 * length is"
  by (induction "is") (simp_all add: numbered_deadline_facts)

lemma capped_deadline_valid:
  "capped_deadline_text \<noteq> []" "100 \<le> length (strip capped_deadline_text)"
  "length capped_deadline_text \<le> 1000000"
proof -
  show 1: "capped_deadline_text \<noteq> []"
    by (simp add: capped_deadline_text_def deadline_line_facts)
  have h: "hd capped_deadline_text = CHR ''d''"
    by (simp add: capped_deadline_text_def upt_rec [of 0] numbered_deadline_def)
  have l: "last capped_deadline_text = last deadline_line"
    by (simp add: capped_deadline_text_def deadline_line_facts)
  have s: "strip capped_deadline_text = capped_deadline_text"
    by (rule strip_no_outer_space) (simp_all add: 1 h l deadline_line_facts char_ev)
  have "\<forall>i \<in> set [0..<20]. i < 20" by simp
  from numbered_lines_length [OF this]
  have len: "320 \<le> length capped_deadline_text" "length capped_deadline_text \<le> 747"
    unfolding capped_deadline_text_def by (simp_all add: deadline_line_facts)
  show "100 \<le> length (strip capped_deadline_text)" using len by (simp add: s)
  show "length capped_deadline_text \<le> 1000000" using len by simp
qed

lemma capped_deadline_stream:
  "dates_results capped_deadline_text (no_entities capped_deadline_text) =
     map (\<lambda>i. (''Deadline'', numbered_deadline i)) [0..<20] @ [(''Deadline'', deadline_line)]"
proof -
  have b: "\<forall>i \<in> set [0..<20]. i < 20" by simp
  have "date_line_scan [deadline_line] = [(''Deadline'', deadline_line)]"
    by (simp add: date_line_scan_def date_line_deadline_line)
  then have "date_line_scan (map numbered_deadline [0..<20] @ [deadline_line]) =
          map (\<lambda>i. (''Deadline'', numbered_deadline i)) [0..<20] @ [(''Deadline'', deadline_line)]"
    by (simp only: date_line_scan_numbered [OF b])
  then show ?thesis
    by (simp only: dates_results_def capped_deadline_lines date_scan_def no_entities_facts
          list.map concat.simps append_Nil2)
qed

lemma distinct_numbered:
  "distinct xs \<Longrightarrow>
   distinct (map snd (map (\<lambda>i. (''Deadline'', numbered_deadline i)) xs @
                      [(''Deadline'', deadline_line)]))"
  by (induction xs) (auto dest: numbered_deadline_inj simp: numbered_deadline_differs)

lemma capped_deadline_dates:
  "extract_dates capped_deadline_text (no_entities capped_deadline_text) =
     map (\<lambda>i. (''Deadline'', numbered_deadline i)) [0..<20]"
proof -
  let ?A = "map (\<lambda>i. (''Deadline'', numbered_deadline i)) [0..<20]"
  let ?S = "?A @ [(''Deadline'', deadline_line)]"
  have d: "distinct (map snd ?S)" by (rule distinct_numbered) simp
  have "dedup snd {} ?S = ?S" by (rule dedup_distinct_keys [OF d]) simp
  moreover have "take 20 ?S = ?A" by simp
  ultimately show ?thesis
    by (simp only: extract_dates_def capped_deadline_stream)
qed

lemma deadline_cut_by_cap:
  "deadline_line \<in> set (split CHR 0x0A capped_deadline_text) \<and>
   length capped_deadline_text \<le> 1000000 \<and>
   (\<exists>r. analyze_document no_entities capped_deadline_text = Inr r \<and>
        dates r = map (\<lambda>i. (''Deadline'', numbered_deadline i)) [0..<20] \<and>
        length (dates r) = 20 \<and> (''Deadline'', deadline_line) \<notin> set (dates r))"
proof -
  have n: "(''Deadline'', deadline_line) \<notin>
          set (map (\<lambda>i. (''Deadline'', numbered_deadline i)) [0..<20])"
    using numbered_deadline_differs [symmetric] by (auto simp del: upt_Suc)
  have l: "deadline_line \<in> set (split CHR 0x0A capped_deadline_text)"
    by (simp only: capped_deadline_lines) simp
  have m: "length (map (\<lambda>i. (''Deadline'', numbered_deadline i)) [0..<20]) = 20" by simp
  show ?thesis
    using n l m capped_deadline_valid(3)
    by (simp only: analyze_document_short [OF capped_deadline_valid] capped_deadline_dates)
       simp
qed

text \<open>The scenario with the line first, and with the line after the 20 lines.\<close>

lemma capped_deadline_length:
  "320 \<le> length capped_deadline_text" "length capped_deadline_text \<le> 747"
proof -
  have "\<forall>i \<in> set [0..<20]. i < 20" by simp
  from numbered_lines_length [OF this]
  show "320 \<le> length capped_deadline_text" "length capped_deadline_text \<le> 747"
    unfolding capped_deadline_text_def by (simp_all add: deadline_line_facts)
qed

lemma deadline_first_text_facts:
  "deadline_first_text \<noteq> []" "100 \<le> length (strip deadline_first_text)"
  "length deadline_first_text \<le> 1000000"
  "split CHR 0x0A deadline_first_text =
     [] @ deadline_line # (map numbered_deadline [0..<20] @ [deadline_line])"
proof -
  show 1: "deadline_first_text \<noteq> []" by (simp add: deadline_first_text_def)
  have h: "hd deadline_first_text = hd deadline_line"
    by (simp add: deadline_first_text_def deadline_line_facts(5))
  have "last deadline_first_text = last capped_deadline_text"
    by (simp add: deadline_first_text_def capped_deadline_valid(1))
  also have "\<dots> = last deadline_line"
    by (simp add: capped_deadline_text_def deadline_line_facts(5))
  finally have l: "last deadline_first_text = last deadline_line" .
  have s: "strip deadline_first_text = deadline_first_text"
    by (rule strip_no_outer_space) (simp_all only: 1 h l deadline_line_facts not_False_eq_True)
  have len: "length deadline_first_text = 28 + length capped_deadline_text"
    by (simp add: deadline_first_text_def deadline_line_facts(2))
  show "100 \<le> length (strip deadline_first_text)"
    using capped_deadline_length by (simp add: s len)
  show "length deadline_first_text \<le> 1000000"
    using capped_deadline_length by (simp add: len)
  have "split CHR 0x0A deadline_first_text = deadline_line # split CHR 0x0A capped_deadline_text"
    unfolding deadline_first_text_def by (rule split_append_sep) (rule deadline_line_facts(7))
  then show "split CHR 0x0A deadline_first_text =
     [] @ deadline_line # (map numbered_deadline [0..<20] @ [deadline_line])"
    by (simp only: capped_deadline_lines append_Nil)
qed

lemma numbered_deadline_contents:
  "map snd (date_line_scan (map numbered_deadline [0..<20])) = map numbered_deadline [0..<20]"
proof -
  have b: "\<forall>i \<in> set [0..<20]. i < 20" by simp
  have "date_line_scan (map numbered_deadline [0..<20] @ []) =
        map (\<lambda>i. (''Deadline'', numbered_deadline i)) [0..<20] @ date_line_scan []"
    by (rule date_line_scan_numbered [OF b])
  then show ?thesis by (simp add: date_line_scan_def comp_def del: upt_Suc)
qed

lemma numbered_deadline_count:
  "length (remdups (map numbered_deadline [0..<20])) = 20"
proof -
  have "inj_on numbered_deadline (set [0..<20])"
    by (rule inj_onI) (rule numbered_deadline_inj)
  then have "distinct (map numbered_deadline [0..<20])" by (simp add: distinct_map del: upt_Suc)
  then have "remdups (map numbered_deadline [0..<20]) = map numbered_deadline [0..<20]"
    by (rule distinct_remdups_id)
  then show ?thesis by (simp only: length_map length_upt)
qed

theorem deadline_takes_priority_witness:
  "(\<exists>r. analyze_document no_entities deadline_first_text = Inr r \<and>
        split CHR 0x0A (take 1000000 deadline_first_text) =
          [] @ deadline_line # (map numbered_deadline [0..<20] @ [deadline_line]) \<and>
        length (remdups (map snd (date_line_scan []))) < 20 \<and>
        (''Deadline'', deadline_line) \<in> set (dates r)) \<and>
   (\<exists>r. analyze_document no_entities capped_deadline_text = Inr r \<and>
        split CHR 0x0A (take 1000000 capped_deadline_text) =
          map numbered_deadline [0..<20] @ deadline_line # [] \<and>
        deadline_line \<notin> set (map snd (date_line_scan (map numbered_deadline [0..<20]))) \<and>
        \<not> length (remdups (map snd (date_line_scan (map numbered_deadline [0..<20])))) < 20 \<and>
        (''Deadline'', deadline_line) \<notin> set (dates r))"
proof -
  note t = deadline_takes_priority [folded deadline_line_def]
  let ?f = "deadline_first_text"
  let ?rf = "\<lparr>case_info = extract_case_info ?f (no_entities ?f),
              tax_amounts = extract_tax_amounts ?f (no_entities ?f),
              dates = extract_dates ?f (no_entities ?f),
              legal_refs = extract_legal_references ?f,
              other = extract_other_details ?f (no_entities ?f)\<rparr>"
  have rf: "analyze_document no_entities ?f = Inr ?rf"
    by (rule analyze_document_short [OF deadline_first_text_facts(1,2,3)])
  have sf: "split CHR 0x0A (take 1000000 ?f) =
              [] @ deadline_line # (map numbered_deadline [0..<20] @ [deadline_line])"
    using deadline_first_text_facts(3) by (simp only: take_all deadline_first_text_facts(4))
  have cf: "length (remdups (map snd (date_line_scan []))) < 20"
    by (simp add: date_line_scan_def)
  from t [of _ no_entities ?f ?rf "[]" "map numbered_deadline [0..<20] @ [deadline_line]"]
       rf sf cf
  have xf: "(''Deadline'', deadline_line) \<in> set (dates ?rf)" by blast
  let ?c = "capped_deadline_text"
  let ?rc = "\<lparr>case_info = extract_case_info ?c (no_entities ?c),
              tax_amounts = extract_tax_amounts ?c (no_entities ?c),
              dates = extract_dates ?c (no_entities ?c),
              legal_refs = extract_legal_references ?c,
              other = extract_other_details ?c (no_entities ?c)\<rparr>"
  have rc: "analyze_document no_entities ?c = Inr ?rc"
    by (rule analyze_document_short [OF capped_deadline_valid])
  have sc: "split CHR 0x0A (take 1000000 ?c) = map numbered_deadline [0..<20] @ deadline_line # []"
    using capped_deadline_valid(3) by (simp only: take_all capped_deadline_lines)
  have nc: "deadline_line \<notin> set (map snd (date_line_scan (map numbered_deadline [0..<20])))"
    using numbered_deadline_differs [symmetric]
    by (simp only: numbered_deadline_contents) (auto simp del: upt_Suc)
  have cc: "\<not> length (remdups (map snd (date_line_scan (map numbered_deadline [0..<20])))) < 20"
    by (simp only: numbered_deadline_contents numbered_deadline_count)
  from t [of _ no_entities ?c ?rc "map numbered_deadline [0..<20]" "[]"] rc sc nc cc
  have xc: "(''Deadline'', deadline_line) \<notin> set (dates ?rc)" by blast
  from rf sf cf xf rc sc nc cc xc show ?thesis by blast
qed

section \<open>A match stays a match in a longer string\<close>

lemma in_concat_map: "x \<in> set xs \<Longrightarrow> y \<in> set (f x) \<Longrightarrow> y \<in> set (concat (map f xs))"
  by auto

lemma in_concat_mapE:
  "y \<in> set (concat (map f xs)) \<Longrightarrow> \<exists>x \<in> set xs. y \<in> set (f x)"
  by auto

lemma re_m_append: "s' \<in> set (re_m ic r s) \<Longrightarrow> s' @ t \<in> set (re_m ic r (s @ t))"
proof (induction ic r s arbitrary: s' rule: re_m.induct)
  case (1 ic c s)
  then show ?case by (cases s) (simp_all add: re_m.simps(1) split: if_splits)
next
  case (2 ic items s)
  then show ?case by (cases s) (simp_all add: re_m.simps(2) split: if_splits)
next
  case (3 ic a b s)
  from "3.prems" have "s' \<in> set (concat (map (re_m ic b) (re_m ic a s)))"
    by (subst (asm) re_m.simps(3)) assumption
  then have "\<exists>s1 \<in> set (re_m ic a s). s' \<in> set (re_m ic b s1)"
    by (rule in_concat_mapE)
  then obtain s1 where s1: "s1 \<in> set (re_m ic a s)" "s' \<in> set (re_m ic b s1)"
    by (rule bexE)
  have a: "s1 @ t \<in> set (re_m ic a (s @ t))" by (rule "3.IH"(1) [OF s1(1)])
  have b: "s' @ t \<in> set (re_m ic b (s1 @ t))" by (rule "3.IH"(2) [OF s1(1) s1(2)])
  have "s' @ t \<in> set (concat (map (re_m ic b) (re_m ic a (s @ t))))"
    using a b by (rule in_concat_map)
  then show ?case by (subst re_m.simps(3)) assumption
next
  case (4 ic a b s)
  from "4.prems" have "s' \<in> set (re_m ic a s @ re_m ic b s)"
    by (subst (asm) re_m.simps(4)) assumption
  then have "s' \<in> set (re_m ic a s) \<or> s' \<in> set (re_m ic b s)"
    by (simp del: re_m.simps)
  with "4.IH" have "s' @ t \<in> set (re_m ic a (s @ t)) \<or> s' @ t \<in> set (re_m ic b (s @ t))"
    by blast
  then have "s' @ t \<in> set (re_m ic a (s @ t) @ re_m ic b (s @ t))"
    by (simp del: re_m.simps)
  then show ?case by (subst re_m.simps(4)) assumption
next
  case (5 ic a s)
  from "5.prems" have "s' \<in> set (re_m ic a s @ [s])"
    by (subst (asm) re_m.simps(5)) assumption
  then have "s' \<in> set (re_m ic a s) \<or> s' = s"
    by (simp del: re_m.simps) blast
  with "5.IH" have "s' @ t \<in> set (re_m ic a (s @ t)) \<or> s' @ t = s @ t"
    by blast
  then have "s' @ t \<in> set (re_m ic a (s @ t) @ [s @ t])"
    by (simp del: re_m.simps) blast
  then show ?case by (subst re_m.simps(5)) assumption
next
  case (6 ic a s)
  let ?f = "\<lambda>u. if length u < length s then re_m ic (Star a) u else []"
  let ?g = "\<lambda>u. if length u < length (s @ t) then re_m ic (Star a) u else []"
  from "6.prems" have p: "s' \<in> set (concat (map ?f (re_m ic a s)) @ [s])"
    by (subst (asm) re_m.simps(6)) assumption
  have "s' @ t \<in> set (concat (map ?g (re_m ic a (s @ t))) @ [s @ t])"
  proof (cases "s' = s")
    case True
    then show ?thesis by (simp del: re_m.simps)
  next
    case False
    with p have "s' \<in> set (concat (map ?f (re_m ic a s)))" by (simp del: re_m.simps)
    then have "\<exists>s1 \<in> set (re_m ic a s). s' \<in> set (?f s1)"
      by (rule in_concat_mapE)
    then obtain s1 where s1: "s1 \<in> set (re_m ic a s)" "s' \<in> set (?f s1)"
      by (rule bexE)
    then have l: "length s1 < length s"
      by (cases "length s1 < length s") (simp_all del: re_m.simps)
    with s1(2) have s1': "s' \<in> set (re_m ic (Star a) s1)" by (simp del: re_m.simps)
    have a: "s1 @ t \<in> set (re_m ic a (s @ t))" by (rule "6.IH"(1) [OF s1(1)])
    have "s' @ t \<in> set (re_m ic (Star a) (s1 @ t))"
      by (rule "6.IH"(2) [OF s1(1) l s1'])
    then have b: "s' @ t \<in> set (?g (s1 @ t))" using l by (simp del: re_m.simps)
    have "s' @ t \<in> set (concat (map ?g (re_m ic a (s @ t))))"
      using a b by (rule in_concat_map)
    then show ?thesis by (simp del: re_m.simps)
  qed
  then show ?case by (subst re_m.simps(6)) assumption
qed

lemma re_match_append: "re_match ic r s \<Longrightarrow> re_match ic r (s @ t)"
proof -
  assume "re_match ic r s"
  then obtain s' where "s' \<in> set (re_m ic r s)"
    unfolding re_match_def by (cases "re_m ic r s") auto
  then have "s' @ t \<in> set (re_m ic r (s @ t))" by (rule re_m_append)
  then show ?thesis unfolding re_match_def by auto
qed

lemma re_match_search: "re_match ic r s \<Longrightarrow> re_search ic r s"
  by (cases s) simp_all

lemma re_search_append: "re_search ic r s \<Longrightarrow> re_search ic r (s @ t)"
proof (induction s)
  case Nil
  then have "re_match ic r []" by simp
  then have "re_match ic r ([] @ t)" by (rule re_match_append)
  then show ?case by (simp add: re_match_search)
next
  case (Cons c s)
  then show ?case using re_match_append [of ic r "c # s" t] by auto
qed

lemma re_search_prepend: "re_search ic r s \<Longrightarrow> re_search ic r (a @ s)"
  by (induction a) auto

lemma re_search_strip: "re_search ic r (strip l) \<Longrightarrow> re_search ic r l"
proof -
  assume a: "re_search ic r (strip l)"
  obtain x y where l: "l = x @ strip l @ y" using strip_decomp by blast
  from a have "re_search ic r (strip l @ y)" by (rule re_search_append)
  then have "re_search ic r (x @ strip l @ y)" by (rule re_search_prepend)
  then show ?thesis by (subst l)
qed

section \<open>The line scan of extract_legal_references\<close>

lemma first_legal_find:
  "first_legal ps line ls =
     (case find (\<lambda>(pattern, heading). re_search True pattern line) ps of
        None \<Rightarrow> [] | Some (pattern, heading) \<Rightarrow> [(heading, ls)])"
  by (induction ps) auto

lemma legal_line_cases:
  "legal_line line =
     (if 10 \<le> length (strip line) \<and> length (strip line) \<le> 200
      then first_legal legal_patterns line (strip line) else [])"
  by (auto simp: legal_line_def Let_def)

lemma legal_line_long: "length (strip line) > 200 \<Longrightarrow> legal_line line = []"
  by (simp add: legal_line_cases)

lemma legal_patterns_hd:
  "\<exists>rest. legal_patterns = (fst (legal_patterns ! 0), ''Section'') # rest"
  by (simp add: legal_patterns_def)

lemma legal_headings:
  "map snd legal_patterns = [''Section'', ''USC Reference'', ''IRC Section'', ''CFR Reference'',
                             ''Title Reference'', ''Public Law'']"
  by (simp add: legal_patterns_def)

lemma first_legal_section:
  "re_search True (fst (legal_patterns ! 0)) line \<Longrightarrow>
   first_legal legal_patterns line ls = [(''Section'', ls)]"
proof -
  assume a: "re_search True (fst (legal_patterns ! 0)) line"
  obtain rest where r: "legal_patterns = (fst (legal_patterns ! 0), ''Section'') # rest"
    using legal_patterns_hd by blast
  show ?thesis by (subst r) (simp add: a)
qed

lemma section_line_facts:
  "strip section_line = section_line"
  "length section_line = 43"
  "re_search True (fst (legal_patterns ! 0)) section_line"
  "section_line \<noteq> []" "\<not> isspace (last section_line)"
  "CHR 0x0A \<notin> set section_line" "\<not> isspace (hd section_line)"
  unfolding section_line_def
  by (simp_all add: strip_def legal_patterns_def sect_def paren_id_def char_ev re_ev)

lemma legal_line_section_line: "legal_line section_line = [(''Section'', section_line)]"
  by (simp add: legal_line_cases section_line_facts(1,2)
        first_legal_section [OF section_line_facts(3)])

lemma legal_item_of_content:
  assumes "z \<in> set (legal_results t)" "snd z = section_line"
  shows "z = (''Section'', section_line)"
proof -
  from assms(1) obtain l where l: "l \<in> set (split CHR 0x0A t)" "z \<in> set (legal_line l)"
    by (auto simp: legal_results_def)
  then have w: "10 \<le> length (strip l) \<and> length (strip l) \<le> 200"
    and z: "z \<in> set (first_legal legal_patterns l (strip l))"
    by (auto simp: legal_line_cases split: if_splits)
  from z have "snd z = strip l"
    by (auto simp: first_legal_find split: option.splits)
  with assms(2) have s: "strip l = section_line" by simp
  have "re_search True (fst (legal_patterns ! 0)) (strip l)"
    by (simp only: s section_line_facts(3))
  then have "re_search True (fst (legal_patterns ! 0)) l" by (rule re_search_strip)
  from first_legal_section [OF this] z s show ?thesis by simp
qed

text \<open>
  C8, as stated, fails for some valid inputs that contain the line: when the line stands
  after the first 1,000,000 characters, the text is cut before it and legal_refs is
  empty. (The cap of 25 is a second way to lose the line, shown after the scenario.)
\<close>

theorem late_section_counterexample:
  "section_line \<in> set (split CHR 0x0A late_section_text) \<and>
   \<not> (late_section_text = [] \<or> length (strip late_section_text) < 100) \<and>
   analyze_document no_entities late_section_text =
     Inr \<lparr>case_info = [], tax_amounts = [], dates = [], legal_refs = [], other = []\<rparr>"
  unfolding late_section_text_def
  using late_line_text [OF section_line_facts(4,5,6)] by blast

lemma legal_lines_split:
  "concat (map legal_line (pre @ section_line # post)) =
   concat (map legal_line pre) @ (''Section'', section_line) # concat (map legal_line post)"
  by (simp add: legal_line_section_line)

text \<open>
  C8, amended: a line whose stripped length is from 10 to 200 is tested against the six
  patterns in their order, and the first pattern found in it gives the heading of the
  one item, whose content is the stripped line; other lines give nothing. For a valid
  input with the line \<open>See Section 501(c)(3) for exemption details\<close> among the lines
  of its first 1,000,000 characters, after the lines \<open>pre\<close>, legal_refs contains the
  item with heading \<open>Section\<close> whenever the lines before it give fewer than 25
  distinct contents; and when none of them gives the content of the line, the item is
  in legal_refs only then.
\<close>

theorem first_legal_pattern_decides:
  "legal_line line =
     (if 10 \<le> length (strip line) \<and> length (strip line) \<le> 200
      then (case find (\<lambda>(pattern, heading). re_search True pattern line) legal_patterns of
              None \<Rightarrow> []
            | Some (pattern, heading) \<Rightarrow> [(heading, strip line)])
      else []) \<and>
   map snd legal_patterns = [''Section'', ''USC Reference'', ''IRC Section'', ''CFR Reference'',
                             ''Title Reference'', ''Public Law''] \<and>
   (analyze_document nlp text = Inr r \<longrightarrow>
    split CHR 0x0A (take 1000000 text) =
      pre @ ''See Section 501(c)(3) for exemption details'' # post \<longrightarrow>
    (length (remdups (map snd (concat (map legal_line pre)))) < 25 \<longrightarrow>
     (''Section'', ''See Section 501(c)(3) for exemption details'') \<in> set (legal_refs r)) \<and>
    (''See Section 501(c)(3) for exemption details''
       \<notin> set (map snd (concat (map legal_line pre))) \<longrightarrow>
     (''Section'', ''See Section 501(c)(3) for exemption details'') \<in> set (legal_refs r) \<longrightarrow>
     length (remdups (map snd (concat (map legal_line pre)))) < 25))"
proof -
  have 1: "legal_line line =
     (if 10 \<le> length (strip line) \<and> length (strip line) \<le> 200
      then (case find (\<lambda>(pattern, heading). re_search True pattern line) legal_patterns of
              None \<Rightarrow> []
            | Some (pattern, heading) \<Rightarrow> [(heading, strip line)])
      else [])"
    by (simp only: legal_line_cases first_legal_find)
  have 2: "(length (remdups (map snd (concat (map legal_line pre)))) < 25 \<longrightarrow>
            (''Section'', section_line) \<in> set (legal_refs r)) \<and>
           (section_line \<notin> set (map snd (concat (map legal_line pre))) \<longrightarrow>
            (''Section'', section_line) \<in> set (legal_refs r) \<longrightarrow>
            length (remdups (map snd (concat (map legal_line pre)))) < 25)"
    if r: "analyze_document nlp text = Inr r"
      and l: "split CHR 0x0A (take 1000000 text) = pre @ section_line # post"
  proof -
    let ?t = "take 1000000 text"
    let ?A = "concat (map legal_line pre)"
    let ?B = "concat (map legal_line post)"
    let ?x = "(''Section'', section_line)"
    have out: "legal_refs r = take 25 (dedup snd {} (?A @ ?x # ?B))"
      by (simp only: analyze_document_fields(4) [OF r] extract_legal_references_def
            legal_results_def l legal_lines_split)
    have "set ?A \<subseteq> set (legal_results ?t)"
      by (simp only: legal_results_def l) auto
    then have u: "\<forall>z \<in> set ?A. snd z = snd ?x \<longrightarrow> z = ?x"
      using legal_item_of_content [of _ ?t] by auto
    have a: "?x \<in> set (legal_refs r)" if "length (remdups (map snd ?A)) < 25"
      unfolding out using u that by (rule item_kept_before_cap)
    have b: "length (remdups (map snd ?A)) < 25"
      if n: "section_line \<notin> set (map snd ?A)" and m: "?x \<in> set (legal_refs r)"
    proof -
      have "snd ?x \<notin> snd ` set ?A" using n by simp
      from dedup_first_occurrence [OF this, of 25 ?B] m show ?thesis
        by (simp only: out)
    qed
    from a b show ?thesis by blast
  qed
  from 1 legal_headings 2 [unfolded section_line_def] show ?thesis by blast
qed


lemma legal_line_padding: "legal_line padding = []"
  by (rule legal_line_long) (simp add: padding_facts)


section \<open>The section line cut by the cap\<close>

text \<open>
  The cap of 25 is the second way to lose the line of the section scenario: after 25 distinct lines with a
  section reference, the line is collected and then cut.
\<close>

lemma numbered_section_facts:
  "numbered_section i \<noteq> []"
  "\<not> isspace (hd (numbered_section i))"
  "\<not> isspace (last (numbered_section i))"
  "length (numbered_section i) = 44 + i"
  "CHR 0x0A \<notin> set (numbered_section i)"
  "re_search True (fst (legal_patterns ! 0)) (numbered_section i)"
proof -
  show "numbered_section i \<noteq> []" by (simp add: numbered_section_def)
  have "hd (numbered_section i) = hd section_line"
    by (simp add: numbered_section_def section_line_facts(4))
  then show "\<not> isspace (hd (numbered_section i))" by (simp only: section_line_facts(7)) simp
  show "\<not> isspace (last (numbered_section i))" by (simp add: numbered_section_def char_ev)
  show "length (numbered_section i) = 44 + i"
    by (simp add: numbered_section_def section_line_facts(2))
  show "CHR 0x0A \<notin> set (numbered_section i)"
    using section_line_facts(6) by (simp add: numbered_section_def)
  show "re_search True (fst (legal_patterns ! 0)) (numbered_section i)"
    unfolding numbered_section_def by (rule re_search_append) (rule section_line_facts(3))
qed

lemma numbered_section_strip: "strip (numbered_section i) = numbered_section i"
  by (rule strip_no_outer_space) (rule numbered_section_facts)+

lemma numbered_section_inj:
  assumes "numbered_section i = numbered_section j"
  shows "i = j"
proof -
  have "length (numbered_section i) = length (numbered_section j)"
    by (simp only: assms)
  then show ?thesis by (simp only: numbered_section_facts(4))
qed

lemma numbered_section_differs: "numbered_section i \<noteq> section_line"
proof
  assume "numbered_section i = section_line"
  then have "length (numbered_section i) = length section_line" by (simp only:)
  then show False by (simp only: numbered_section_facts(4) section_line_facts(2))
qed

lemma legal_line_numbered_section:
  assumes "i < 25"
  shows "legal_line (numbered_section i) = [(''Section'', numbered_section i)]"
proof -
  have l: "length (strip (numbered_section i)) = 44 + i"
    by (simp only: numbered_section_strip numbered_section_facts(4))
  have w: "10 \<le> length (strip (numbered_section i)) \<and>
           length (strip (numbered_section i)) \<le> 200"
    unfolding l using assms by simp
  have "legal_line (numbered_section i) =
          first_legal legal_patterns (numbered_section i) (strip (numbered_section i))"
    using w by (simp only: legal_line_cases simp_thms if_True)
  then show ?thesis
    by (simp only: first_legal_section [OF numbered_section_facts(6)] numbered_section_strip)
qed

lemma legal_lines_numbered:
  "\<forall>i \<in> set is. i < 25 \<Longrightarrow>
   concat (map legal_line (map numbered_section is @ ls)) =
     map (\<lambda>i. (''Section'', numbered_section i)) is @ concat (map legal_line ls)"
  by (induction "is") (simp_all add: legal_line_numbered_section)

lemma capped_section_lines:
  "split CHR 0x0A capped_section_text = map numbered_section [0..<25] @ [section_line]"
  unfolding capped_section_text_def
  by (rule split_lines) (simp_all add: numbered_section_facts section_line_facts)

lemma numbered_sections_length:
  "44 * length is \<le> length (concat (map (\<lambda>l. l @ [CHR 0x0A]) (map numbered_section is)))"
  by (induction "is") (simp_all add: numbered_section_facts)

lemma numbered_sections_length_le:
  "\<forall>i \<in> set is. i < 25 \<Longrightarrow>
   length (concat (map (\<lambda>l. l @ [CHR 0x0A]) (map numbered_section is))) \<le> 70 * length is"
  by (induction "is") (simp_all add: numbered_section_facts)

lemma capped_section_valid:
  "capped_section_text \<noteq> []" "100 \<le> length (strip capped_section_text)"
  "length capped_section_text \<le> 1000000"
proof -
  show 1: "capped_section_text \<noteq> []"
    by (simp add: capped_section_text_def section_line_facts)
  have "hd capped_section_text = hd (numbered_section 0)"
    by (simp add: capped_section_text_def upt_rec [of 0] numbered_section_facts)
  then have h: "\<not> isspace (hd capped_section_text)"
    by (simp only: numbered_section_facts(2)) simp
  have l: "last capped_section_text = last section_line"
    by (simp add: capped_section_text_def section_line_facts)
  have s: "strip capped_section_text = capped_section_text"
    by (rule strip_no_outer_space) (simp_all add: 1 h l section_line_facts)
  have "\<forall>i \<in> set [0..<25]. i < 25" by simp
  from numbered_sections_length [of "[0..<25]"] numbered_sections_length_le [OF this]
  have len: "1100 \<le> length capped_section_text" "length capped_section_text \<le> 1793"
    unfolding capped_section_text_def by (simp_all add: section_line_facts)
  show "100 \<le> length (strip capped_section_text)" using len by (simp add: s)
  show "length capped_section_text \<le> 1000000" using len by simp
qed

lemma capped_section_stream:
  "legal_results capped_section_text =
     map (\<lambda>i. (''Section'', numbered_section i)) [0..<25] @ [(''Section'', section_line)]"
proof -
  have b: "\<forall>i \<in> set [0..<25]. i < 25" by simp
  have "concat (map legal_line [section_line]) = [(''Section'', section_line)]"
    by (simp add: legal_line_section_line)
  then have "concat (map legal_line (map numbered_section [0..<25] @ [section_line])) =
          map (\<lambda>i. (''Section'', numbered_section i)) [0..<25] @ [(''Section'', section_line)]"
    by (simp only: legal_lines_numbered [OF b])
  then show ?thesis
    by (simp only: legal_results_def capped_section_lines)
qed

lemma distinct_numbered_sections:
  "distinct xs \<Longrightarrow>
   distinct (map snd (map (\<lambda>i. (''Section'', numbered_section i)) xs @
                      [(''Section'', section_line)]))"
  by (induction xs) (auto dest: numbered_section_inj simp: numbered_section_differs)

lemma capped_section_refs:
  "extract_legal_references capped_section_text =
     map (\<lambda>i. (''Section'', numbered_section i)) [0..<25]"
proof -
  let ?A = "map (\<lambda>i. (''Section'', numbered_section i)) [0..<25]"
  let ?S = "?A @ [(''Section'', section_line)]"
  have d: "distinct (map snd ?S)" by (rule distinct_numbered_sections) simp
  have "dedup snd {} ?S = ?S" by (rule dedup_distinct_keys [OF d]) simp
  moreover have "take 25 ?S = ?A" by simp
  ultimately show ?thesis
    by (simp only: extract_legal_references_def capped_section_stream)
qed

lemma section_cut_by_cap:
  "section_line \<in> set (split CHR 0x0A capped_section_text) \<and>
   length capped_section_text \<le> 1000000 \<and>
   (\<exists>r. analyze_document no_entities capped_section_text = Inr r \<and>
        legal_refs r = map (\<lambda>i. (''Section'', numbered_section i)) [0..<25] \<and>
        length (legal_refs r) = 25 \<and> (''Section'', section_line) \<notin> set (legal_refs r))"
proof -
  have n: "(''Section'', section_line) \<notin>
          set (map (\<lambda>i. (''Section'', numbered_section i)) [0..<25])"
    using numbered_section_differs [symmetric] by (auto simp del: upt_Suc)
  have l: "section_line \<in> set (split CHR 0x0A capped_section_text)"
    by (simp only: capped_section_lines) simp
  have m: "length (map (\<lambda>i. (''Section'', numbered_section i)) [0..<25]) = 25" by simp
  show ?thesis
    using n l m capped_section_valid(3)
    by (simp only: analyze_document_short [OF capped_section_valid] capped_section_refs)
       simp
qed

text \<open>The scenario with the line first, and with the line after the 25 lines.\<close>

lemma capped_section_length:
  "1100 \<le> length capped_section_text" "length capped_section_text \<le> 1793"
proof -
  have "\<forall>i \<in> set [0..<25]. i < 25" by simp
  from numbered_sections_length [of "[0..<25]"] numbered_sections_length_le [OF this]
  show "1100 \<le> length capped_section_text" "length capped_section_text \<le> 1793"
    unfolding capped_section_text_def by (simp_all add: section_line_facts)
qed

lemma section_first_text_facts:
  "section_first_text \<noteq> []" "100 \<le> length (strip section_first_text)"
  "length section_first_text \<le> 1000000"
  "split CHR 0x0A section_first_text =
     [] @ section_line # (map numbered_section [0..<25] @ [section_line])"
proof -
  show 1: "section_first_text \<noteq> []" by (simp add: section_first_text_def)
  have h: "hd section_first_text = hd section_line"
    by (simp add: section_first_text_def section_line_facts(4))
  have "last section_first_text = last capped_section_text"
    by (simp add: section_first_text_def capped_section_valid(1))
  also have "\<dots> = last section_line"
    by (simp add: capped_section_text_def section_line_facts(4))
  finally have l: "last section_first_text = last section_line" .
  have s: "strip section_first_text = section_first_text"
    by (rule strip_no_outer_space) (simp_all only: 1 h l section_line_facts not_False_eq_True)
  have len: "length section_first_text = 44 + length capped_section_text"
    by (simp add: section_first_text_def section_line_facts(2))
  show "100 \<le> length (strip section_first_text)"
    using capped_section_length by (simp add: s len)
  show "length section_first_text \<le> 1000000"
    using capped_section_length by (simp add: len)
  have "split CHR 0x0A section_first_text = section_line # split CHR 0x0A capped_section_text"
    unfolding section_first_text_def by (rule split_append_sep) (rule section_line_facts(6))
  then show "split CHR 0x0A section_first_text =
     [] @ section_line # (map numbered_section [0..<25] @ [section_line])"
    by (simp only: capped_section_lines append_Nil)
qed

lemma numbered_section_contents:
  "map snd (concat (map legal_line (map numbered_section [0..<25]))) =
   map numbered_section [0..<25]"
proof -
  have b: "\<forall>i \<in> set [0..<25]. i < 25" by simp
  have "concat (map legal_line (map numbered_section [0..<25] @ [])) =
        map (\<lambda>i. (''Section'', numbered_section i)) [0..<25] @ concat (map legal_line [])"
    by (rule legal_lines_numbered [OF b])
  then show ?thesis by (simp add: comp_def del: upt_Suc)
qed

lemma numbered_section_count:
  "length (remdups (map numbered_section [0..<25])) = 25"
proof -
  have "inj_on numbered_section (set [0..<25])"
    by (rule inj_onI) (rule numbered_section_inj)
  then have "distinct (map numbered_section [0..<25])" by (simp add: distinct_map del: upt_Suc)
  then have "remdups (map numbered_section [0..<25]) = map numbered_section [0..<25]"
    by (rule distinct_remdups_id)
  then show ?thesis by (simp only: length_map length_upt)
qed

theorem first_legal_pattern_decides_witness:
  "(\<exists>r. analyze_document no_entities section_first_text = Inr r \<and>
        split CHR 0x0A (take 1000000 section_first_text) =
          [] @ section_line # (map numbered_section [0..<25] @ [section_line]) \<and>
        length (remdups (map snd (concat (map legal_line [])))) < 25 \<and>
        (''Section'', section_line) \<in> set (legal_refs r)) \<and>
   (\<exists>r. analyze_document no_entities capped_section_text = Inr r \<and>
        split CHR 0x0A (take 1000000 capped_section_text) =
          map numbered_section [0..<25] @ section_line # [] \<and>
        section_line
          \<notin> set (map snd (concat (map legal_line (map numbered_section [0..<25])))) \<and>
        \<not> length (remdups (map snd (concat (map legal_line
                                              (map numbered_section [0..<25]))))) < 25 \<and>
        (''Section'', section_line) \<notin> set (legal_refs r))"
proof -
  note t = first_legal_pattern_decides [folded section_line_def]
  let ?f = "section_first_text"
  let ?rf = "\<lparr>case_info = extract_case_info ?f (no_entities ?f),
              tax_amounts = extract_tax_amounts ?f (no_entities ?f),
              dates = extract_dates ?f (no_entities ?f),
              legal_refs = extract_legal_references ?f,
              other = extract_other_details ?f (no_entities ?f)\<rparr>"
  have rf: "analyze_document no_entities ?f = Inr ?rf"
    by (rule analyze_document_short [OF section_first_text_facts(1,2,3)])
  have sf: "split CHR 0x0A (take 1000000 ?f) =
              [] @ section_line # (map numbered_section [0..<25] @ [section_line])"
    using section_first_text_facts(3) by (simp only: take_all section_first_text_facts(4))
  have cf: "length (remdups (map snd (concat (map legal_line [])))) < 25"
    by simp
  from t [of _ no_entities ?f ?rf "[]" "map numbered_section [0..<25] @ [section_line]"]
       rf sf cf
  have xf: "(''Section'', section_line) \<in> set (legal_refs ?rf)" by blast
  let ?c = "capped_section_text"
  let ?rc = "\<lparr>case_info = extract_case_info ?c (no_entities ?c),
              tax_amounts = extract_tax_amounts ?c (no_entities ?c),
              dates = extract_dates ?c (no_entities ?c),
              legal_refs = extract_legal_references ?c,
              other = extract_other_details ?c (no_entities ?c)\<rparr>"
  have rc: "analyze_document no_entities ?c = Inr ?rc"
    by (rule analyze_document_short [OF capped_section_valid])
  have sc: "split CHR 0x0A (take 1000000 ?c) = map numbered_section [0..<25] @ section_line # []"
    using capped_section_valid(3) by (simp only: take_all capped_section_lines)
  have nc: "section_line
              \<notin> set (map snd (concat (map legal_line (map numbered_section [0..<25]))))"
    using numbered_section_differs [symmetric]
    by (simp only: numbered_section_contents) (auto simp del: upt_Suc)
  have cc: "\<not> length (remdups (map snd (concat (map legal_line
                                                   (map numbered_section [0..<25]))))) < 25"
    by (simp only: numbered_section_contents numbered_section_count)
  from t [of _ no_entities ?c ?rc "map numbered_section [0..<25]" "[]"] rc sc nc cc
  have xc: "(''Section'', section_line) \<notin> set (legal_refs ?rc)" by blast
  from rf sf cf xf rc sc nc cc xc show ?thesis by blast
qed

section \<open>The case number scenario\<close>



























end
